theory Spec2Isabelle
  imports Complex_Main "HOL-Library.Product_Lexorder" "HOL-Library.Log_Nat"
    "HOL-Library.Multiset"
begin

section \<open>The stream benchmark of \<open>ai_camera_pipeline.py\<close>\<close>

text \<open>
  The development embeds \<open>StreamProcessor.run_single_stream\<close>,
  \<open>PerformanceBenchmark.benchmark_streams\<close> and
  \<open>PerformanceBenchmark.find_optimal_configuration\<close>.

  Conventions of the embedding.
  \<^item> A Python float is the rational it denotes (\<open>rat\<close>). The sums, quotients and
    products that only produce a value are exact. The product \<open>prev * 0.8\<close> of line
    299, which decides a comparison, is the product of doubles: the exact product,
    rounded to the nearest double (ties to even). The literal \<open>0.5\<close> is \<open>1/2\<close>,
    and \<open>num_streams * 0.5\<close> is exact in doubles.
  \<^item> Counters and lengths (\<open>frame_count\<close>, \<open>detection_count\<close>, \<open>num_streams\<close>,
    \<open>max_streams\<close>) are naturals. A negative \<open>max_streams\<close> gives the same empty
    \<open>range(1, max_streams + 1)\<close> as \<open>0\<close>.
  \<^item> An exception is a value: \<open>Inl\<close> of a sum. An exception that leaves
    \<open>benchmark_streams\<close> is paired with \<open>self.results\<close> as it stands at that moment.
  \<^item> The \<open>print\<close> calls, the daemon thread running \<open>monitor_resources\<close> (its
    return value is dropped) and the pause \<open>time.sleep(2)\<close> do not reach any value
    the program keeps, and are left out.
\<close>

subsection \<open>Exceptions\<close>

datatype py_error = ZeroDivisionError | KeyError string

subsection \<open>The result of one stream\<close>

text \<open>
  \<open>run_single_stream\<close> returns one of two dict literals (lines 111-120 and 123-128).
  The dict is a record with one field per key; a key that the dict does not have is
  \<open>None\<close>. The keys \<open>stream_id\<close>, \<open>device\<close> and \<open>success\<close> are in both literals.
\<close>

record stream_result =
  stream_id :: string
  device :: string
  target_fps :: "rat option"
  actual_fps :: "rat option"
  frames_processed :: "nat option"
  detections :: "nat option"
  duration :: "rat option"
  error :: "string option"
  success :: bool

text \<open>The keys of the dict, in the order of the literal.\<close>

definition keys :: "stream_result \<Rightarrow> string list" where
  "keys r =
     [''stream_id'', ''device'']
     @ (if target_fps r = None then [] else [''target_fps''])
     @ (if actual_fps r = None then [] else [''actual_fps''])
     @ (if frames_processed r = None then [] else [''frames_processed''])
     @ (if detections r = None then [] else [''detections''])
     @ (if duration r = None then [] else [''duration''])
     @ (if error r = None then [] else [''error''])
     @ [''success'']"

text \<open>\<open>r['actual_fps']\<close> and \<open>r['detections']\<close>: a missing key raises \<open>KeyError\<close>.\<close>

definition get_actual_fps :: "stream_result \<Rightarrow> py_error + rat" where
  "get_actual_fps r =
     (case actual_fps r of None \<Rightarrow> Inl (KeyError ''actual_fps'') | Some v \<Rightarrow> Inr v)"

definition get_detections :: "stream_result \<Rightarrow> py_error + nat" where
  "get_detections r =
     (case detections r of None \<Rightarrow> Inl (KeyError ''detections'') | Some v \<Rightarrow> Inr v)"

subsection \<open>The world of one stream\<close>

text \<open>
  What \<open>run_single_stream\<close> reads from outside the program:
  \<^item> \<open>popen_error\<close>: \<open>Some msg\<close> when \<open>subprocess.Popen\<close> raises an exception whose
    \<open>str\<close> is \<open>msg\<close>. The command it is given is built by \<open>create_gst_pipeline\<close>
    (line 68, before the \<open>try\<close>), which for a video path that is a string only
    concatenates strings and raises nothing; the string reaches nothing but \<open>Popen\<close>,
    so it is part of this world and not built here. A video path that is not a
    string is outside the type of \<open>run_single_stream\<close>;
  \<^item> \<open>start_time\<close>: the first reading of \<open>time.time()\<close>;
  \<^item> \<open>exited k\<close>: whether \<open>process.poll()\<close> is not \<open>None\<close> at the loop test
    reached with \<open>frame_count = k\<close>;
  \<^item> \<open>lag k\<close>: the time that passes in iteration \<open>k\<close> beyond the requested sleep
    (its absolute value is used, so that \<open>time.sleep(d)\<close> takes at least \<open>d\<close>).
  The clock advances only in \<open>time.sleep\<close>. The \<open>finally\<close> block terminates the
  process and does not change the returned value.
\<close>

record stream_env =
  popen_error :: "string option"
  start_time :: rat
  exited :: "nat \<Rightarrow> bool"
  lag :: "nat \<Rightarrow> rat"

subsection \<open>\<open>run_single_stream\<close>\<close>

text \<open>
  The loop of lines 94-105, with \<open>now\<close> the clock. \<open>1.0/fps_target\<close> raises
  \<open>ZeroDivisionError\<close> for \<open>fps_target = 0\<close>, and \<open>time.sleep\<close> raises
  \<open>ValueError\<close> for a negative length. The result is the message of the exception, or
  \<open>frame_count\<close>, \<open>detection_count\<close> and the clock at the exit of the loop.
\<close>

function monitor ::
  "stream_env \<Rightarrow> rat \<Rightarrow> rat \<Rightarrow> rat \<Rightarrow> nat \<Rightarrow> nat \<Rightarrow> string + (nat \<times> nat \<times> rat)" where
  "monitor w dur fps now frame_count detection_count =
     (if now - start_time w < dur then
        if exited w frame_count then Inr (frame_count, detection_count, now)
        else if fps = 0 then Inl ''float division by zero''
        else if 1 / fps < 0 then Inl ''sleep length must be non-negative''
        else monitor w dur fps (now + 1 / fps + \<bar>lag w frame_count\<bar>) (frame_count + 1)
               (if (frame_count + 1) mod 10 = 0 then detection_count + 1
                else detection_count)
      else Inr (frame_count, detection_count, now))"
  by pat_completeness auto

lemma monitor_measure:
  fixes x c fps :: rat
  assumes "0 < x" "0 < fps" "0 \<le> c"
  shows "nat \<lceil>(x - (1 / fps + c)) * fps\<rceil> < nat \<lceil>x * fps\<rceil>"
proof -
  have pos: "0 < x * fps" using assms by simp
  have "(x - (1 / fps + c)) * fps = x * fps - 1 - c * fps"
    using assms by (simp add: algebra_simps)
  moreover have "0 \<le> c * fps" using assms by simp
  ultimately have "(x - (1 / fps + c)) * fps \<le> x * fps - 1" by linarith
  then have "\<lceil>(x - (1 / fps + c)) * fps\<rceil> \<le> \<lceil>x * fps - 1\<rceil>" by (rule ceiling_mono)
  also have "\<dots> = \<lceil>x * fps\<rceil> - 1" by simp
  finally have le: "\<lceil>(x - (1 / fps + c)) * fps\<rceil> \<le> \<lceil>x * fps\<rceil> - 1" .
  have "0 < \<lceil>x * fps\<rceil>" using pos by simp
  with le show ?thesis by linarith
qed

termination monitor
proof (relation "measure (\<lambda>(w, dur, fps, now, frame_count, detection_count).
                   nat \<lceil>(dur - (now - start_time w)) * fps\<rceil>)", goal_cases)
  case 1
  then show ?case by simp
next
  case (2 w dur fps now frame_count detection_count)
  have fps: "0 < fps"
  proof (rule ccontr)
    assume "\<not> 0 < fps"
    with 2 have "fps < 0" by simp
    then have "1 / fps < 0" by simp
    with 2 show False by simp
  qed
  have x: "0 < dur - (now - start_time w)" using 2 by simp
  have eq: "dur - (now + 1 / fps + \<bar>lag w frame_count\<bar> - start_time w)
        = (dur - (now - start_time w)) - (1 / fps + \<bar>lag w frame_count\<bar>)"
    by simp
  have "nat \<lceil>(dur - (now + 1 / fps + \<bar>lag w frame_count\<bar> - start_time w)) * fps\<rceil>
        < nat \<lceil>(dur - (now - start_time w)) * fps\<rceil>"
    unfolding eq by (rule monitor_measure [OF x fps]) simp
  then show ?case by simp
qed

declare monitor.simps [simp del]

text \<open>The body of the \<open>try\<close> block, lines 81-108.\<close>

definition try_body :: "stream_env \<Rightarrow> rat \<Rightarrow> rat \<Rightarrow> string + (nat \<times> nat \<times> rat)" where
  "try_body w dur fps =
     (case popen_error w of
        Some msg \<Rightarrow> Inl msg
      | None \<Rightarrow> monitor w dur fps (start_time w) 0 0)"

text \<open>
  Lines 65-135. \<open>dev\<close> is \<open>self.device\<close>, \<open>sid\<close> the stream id, \<open>dur\<close> the duration and
  \<open>fps\<close> the target rate. \<open>0::rat\<close> stands for both the float and the integer zero.
\<close>

definition run_single_stream ::
  "stream_env \<Rightarrow> string \<Rightarrow> string \<Rightarrow> string \<Rightarrow> rat \<Rightarrow> rat \<Rightarrow> stream_result" where
  "run_single_stream w dev video_path sid dur fps =
     (case try_body w dur fps of
        Inr (frame_count, detection_count, end_time) \<Rightarrow>
          (let actual_duration = end_time - start_time w;
               fps_achieved = (if actual_duration > 0
                               then of_nat frame_count / actual_duration else 0)
           in \<lparr>stream_id = sid, device = dev, target_fps = Some fps,
                actual_fps = Some fps_achieved, frames_processed = Some frame_count,
                detections = Some detection_count, duration = Some actual_duration,
                error = None, success = True\<rparr>)
      | Inl e \<Rightarrow>
          \<lparr>stream_id = sid, device = dev, target_fps = None,
           actual_fps = None, frames_processed = None,
           detections = None, duration = None,
           error = Some e, success = False\<rparr>)"

subsection \<open>The world of a sweep\<close>

text \<open>
  What \<open>benchmark_streams\<close> reads from outside the program. A trial is named by the
  position \<open>j\<close> of its rate in \<open>fps_targets\<close> and by its \<open>num_streams\<close>:
  \<^item> \<open>stream_env_of j n i\<close>: the world of stream \<open>i\<close> of the trial;
  \<^item> \<open>finish_key j n i\<close>: when the future of stream \<open>i\<close> completes;
    \<open>as_completed\<close> yields the futures in the order of these keys, which is some
    permutation of the submitted futures;
  \<^item> \<open>now_iso j n\<close>: \<open>datetime.now().isoformat()\<close> when the trial is recorded.
\<close>

record bench_env =
  stream_env_of :: "nat \<Rightarrow> nat \<Rightarrow> nat \<Rightarrow> stream_env"
  finish_key :: "nat \<Rightarrow> nat \<Rightarrow> nat \<Rightarrow> nat"
  now_iso :: "nat \<Rightarrow> nat \<Rightarrow> string"

subsection \<open>The record of one trial\<close>

text \<open>
  The dict literal of lines 246-255. The keys \<open>device\<close> and \<open>target_fps\<close> are the
  fields \<open>t_device\<close> and \<open>t_target_fps\<close> here (the names are taken by
  \<open>stream_result\<close>).
\<close>

record trial =
  t_device :: string
  num_streams :: nat
  t_target_fps :: rat
  successful_streams :: nat
  avg_fps_per_stream :: rat
  total_fps :: rat
  total_detections :: nat
  timestamp :: string

subsection \<open>\<open>benchmark_streams\<close>\<close>

text \<open>\<open>str(i)\<close> for the f-string \<open>f"stream_{i}"\<close>.\<close>

fun str_nat :: "nat \<Rightarrow> string" where
  "str_nat n =
     (if n < 10 then [''0123456789'' ! n]
      else str_nat (n div 10) @ [''0123456789'' ! (n mod 10)])"

declare str_nat.simps [simp del]

text \<open>
  The submission loop of lines 222-231: a future is the index of its stream and the
  video file it was given. \<open>i % len(video_files)\<close> raises \<open>ZeroDivisionError\<close> when
  \<open>video_files\<close> is empty.
\<close>

fun submit :: "string list \<Rightarrow> nat list \<Rightarrow> py_error + (nat \<times> string) list" where
  "submit video_files [] = Inr []"
| "submit video_files (i # rest) =
     (if length video_files = 0 then Inl ZeroDivisionError
      else (case submit video_files rest of
              Inl e \<Rightarrow> Inl e
            | Inr futures \<Rightarrow>
                Inr ((i, video_files ! (i mod length video_files)) # futures)))"

text \<open>
  Lines 220-237: the futures are submitted, and their results are collected in the
  order of completion. The duration of every stream is \<open>60\<close>.
\<close>

definition collect ::
  "bench_env \<Rightarrow> string list \<Rightarrow> string \<Rightarrow> nat \<Rightarrow> rat \<Rightarrow> nat \<Rightarrow> py_error + stream_result list"
  where
  "collect env video_files dev j fps n =
     (case submit video_files [0..<n] of
        Inl e \<Rightarrow> Inl e
      | Inr futures \<Rightarrow>
          Inr (map (\<lambda>(i, video_file).
                      run_single_stream (stream_env_of env j n i) dev video_file
                        (''stream_'' @ str_nat i) 60 fps)
                 (sort_key (\<lambda>(i, video_file). finish_key env j n i) futures)))"

text \<open>\<open>sum(f(r) for r in rs)\<close>, started at \<open>acc\<close>; it stops at the first exception.\<close>

fun py_sum :: "('a \<Rightarrow> py_error + 'b) \<Rightarrow> 'a list \<Rightarrow> 'b::plus \<Rightarrow> py_error + 'b" where
  "py_sum f [] acc = Inr acc"
| "py_sum f (r # rs) acc =
     (case f r of Inl e \<Rightarrow> Inl e | Inr v \<Rightarrow> py_sum f rs (acc + v))"

text \<open>
  Lines 240-257: the aggregate of a trial, appended to \<open>self.results\<close> when at least
  one stream succeeded. \<open>ts\<close> is the timestamp.
\<close>

definition record_trial ::
  "string \<Rightarrow> nat \<Rightarrow> rat \<Rightarrow> string \<Rightarrow> stream_result list \<Rightarrow> trial list
   \<Rightarrow> (py_error \<times> trial list) + trial list" where
  "record_trial dev n fps ts stream_results results =
     (let ok = filter success stream_results in
      if ok \<noteq> [] then
        (case py_sum get_actual_fps ok 0 of
           Inl e \<Rightarrow> Inl (e, results)
         | Inr s \<Rightarrow>
             (let avg_fps = s / of_nat (length ok) in
              case py_sum get_detections ok 0 of
                Inl e \<Rightarrow> Inl (e, results)
              | Inr detected \<Rightarrow>
                  Inr (results @
                       [\<lparr>t_device = dev, num_streams = n, t_target_fps = fps,
                         successful_streams = length ok,
                         avg_fps_per_stream = avg_fps,
                         total_fps = avg_fps * of_nat (length ok),
                         total_detections = detected,
                         timestamp = ts\<rparr>])))
      else Inr results)"

text \<open>Line 264: \<open>len(successful_streams) < num_streams * 0.5\<close>.\<close>

definition degraded :: "stream_result list \<Rightarrow> nat \<Rightarrow> bool" where
  "degraded stream_results n \<longleftrightarrow>
     (of_nat (length (filter success stream_results)) :: rat) < of_nat n * (1 / 2)"

text \<open>
  The inner loop of lines 203-268 over the remaining values of \<open>num_streams\<close>, for the
  rate \<open>fps\<close> at position \<open>j\<close>.
\<close>

fun streams_loop ::
  "bench_env \<Rightarrow> string list \<Rightarrow> string \<Rightarrow> nat \<Rightarrow> rat \<Rightarrow> nat list \<Rightarrow> trial list
   \<Rightarrow> (py_error \<times> trial list) + trial list" where
  "streams_loop env video_files dev j fps [] results = Inr results"
| "streams_loop env video_files dev j fps (n # ns) results =
     (case collect env video_files dev j fps n of
        Inl e \<Rightarrow> Inl (e, results)
      | Inr stream_results \<Rightarrow>
          (case record_trial dev n fps (now_iso env j n) stream_results results of
             Inl x \<Rightarrow> Inl x
           | Inr results' \<Rightarrow>
               if degraded stream_results n then Inr results'
               else streams_loop env video_files dev j fps ns results'))"

text \<open>The outer loop of lines 200-268 over the remaining rates, from position \<open>j\<close>.\<close>

fun fps_loop ::
  "bench_env \<Rightarrow> string list \<Rightarrow> string \<Rightarrow> nat \<Rightarrow> nat \<Rightarrow> rat list \<Rightarrow> trial list
   \<Rightarrow> (py_error \<times> trial list) + trial list" where
  "fps_loop env video_files dev max_streams j [] results = Inr results"
| "fps_loop env video_files dev max_streams j (fps # rest) results =
     (case streams_loop env video_files dev j fps [1..<max_streams + 1] results of
        Inl x \<Rightarrow> Inl x
      | Inr results' \<Rightarrow> fps_loop env video_files dev max_streams (j + 1) rest results')"

text \<open>Lines 195-268; \<open>results\<close> is \<open>self.results\<close> at the call.\<close>

definition benchmark_streams ::
  "bench_env \<Rightarrow> string list \<Rightarrow> string \<Rightarrow> nat \<Rightarrow> rat list \<Rightarrow> trial list
   \<Rightarrow> (py_error \<times> trial list) + trial list" where
  "benchmark_streams env video_files dev max_streams fps_targets results =
     fps_loop env video_files dev max_streams 0 fps_targets results"

subsection \<open>\<open>find_optimal_configuration\<close>\<close>

text \<open>
  \<open>max(xs, key=key)\<close> on a non-empty list keeps the first element whose key is
  greatest: a later element replaces the current one only when its key is strictly
  greater. On the empty list it raises; both calls below are behind the guard
  \<open>if not results: continue\<close>, so the model gives \<open>None\<close> there.
\<close>

fun py_max_by :: "('a \<Rightarrow> 'k::linorder) \<Rightarrow> 'a list \<Rightarrow> 'a option" where
  "py_max_by key [] = None"
| "py_max_by key (x # xs) =
     Some (fold (\<lambda>y best. if key best < key y then y else best) xs x)"

text \<open>The entry of \<open>analysis\<close> for one device, lines 304-309.\<close>

record report =
  max_streams :: nat
  best_config :: trial
  bottleneck_at_streams :: nat
  total_results :: nat

text \<open>
  The arithmetic of doubles that line 299 needs. For a positive rational \<open>x\<close>,
  \<open>floor_log2 x\<close> is the exponent \<open>e\<close> with \<open>2 powi e \<le> x < 2 powi (e + 1)\<close>;
  it is read off the bit lengths of the numerator and the denominator.
\<close>

definition floor_log2 :: "rat \<Rightarrow> int" where
  "floor_log2 x =
     (let k = bitlen (fst (quotient_of x)) - bitlen (snd (quotient_of x))
      in if 2 powi k \<le> x then k else k - 1)"

text \<open>Rounding to the nearest integer, a tie to the even one.\<close>

definition round_half_even :: "rat \<Rightarrow> int" where
  "round_half_even m =
     (let f = \<lfloor>m\<rfloor>; d = m - of_int f
      in if d < 1 / 2 then f
         else if 1 / 2 < d then f + 1
         else if even f then f else f + 1)"

text \<open>
  The double nearest to \<open>x\<close>: 53 significant bits, and the fixed spacing
  \<open>2 powi (- 1074)\<close> below \<open>2 powi (- 1022)\<close>. Overflow to infinity is left out: the
  product of a double and \<open>0.8\<close> is smaller in magnitude than the double.
\<close>

definition round_double :: "rat \<Rightarrow> rat" where
  "round_double x =
     (if x = 0 then 0
      else (let ulp = 2 powi (max (floor_log2 \<bar>x\<bar>) (- 1022) - 52)
            in sgn x * of_int (round_half_even (\<bar>x\<bar> / ulp)) * ulp))"

text \<open>\<open>x * y\<close> on doubles, and the double that the literal \<open>0.8\<close> denotes.\<close>

definition float_mul :: "rat \<Rightarrow> rat \<Rightarrow> rat" where
  "float_mul x y = round_double (x * y)"

definition float_0_8 :: rat where
  "float_0_8 = 3602879701896397 / 4503599627370496"

text \<open>
  The loop of lines 295-302 over the remaining indices of \<open>sorted_results\<close> (here
  \<open>ordered\<close>); \<open>bottleneck\<close> is the current \<open>bottleneck_stream_count\<close>. Every index
  of \<open>range(1, len(sorted_results))\<close> and its predecessor are in range.
\<close>

fun scan_bottleneck :: "trial list \<Rightarrow> nat list \<Rightarrow> nat \<Rightarrow> nat" where
  "scan_bottleneck ordered [] bottleneck = bottleneck"
| "scan_bottleneck ordered (i # rest) bottleneck =
     (let curr = ordered ! i; prev = ordered ! (i - 1) in
      if avg_fps_per_stream curr < float_mul (avg_fps_per_stream prev) float_0_8
         \<and> t_target_fps curr = t_target_fps prev
      then num_streams prev
      else scan_bottleneck ordered rest bottleneck)"

text \<open>
  Line 292: \<open>sorted\<close> is stable, and so is \<open>sort_key\<close>; tuples are compared
  lexicographically.
\<close>

definition sorted_results :: "trial list \<Rightarrow> trial list" where
  "sorted_results results = sort_key (\<lambda>x. (t_target_fps x, num_streams x)) results"

text \<open>The body of the loop of lines 281-309 for one device, behind the guard.\<close>

definition analyse_device :: "trial list \<Rightarrow> report option" where
  "analyse_device results =
     (case (py_max_by (\<lambda>n. n) (map num_streams results), py_max_by total_fps results) of
        (Some most, Some best) \<Rightarrow>
          Some \<lparr>max_streams = most, best_config = best,
                bottleneck_at_streams =
                  scan_bottleneck (sorted_results results)
                    [1..<length (sorted_results results)] most,
                total_results = length results\<rparr>
      | _ \<Rightarrow> None)"

text \<open>
  Lines 270-311. The result is \<open>None\<close> for Python's \<open>None\<close>, and otherwise the dict
  \<open>analysis\<close> as the list of its items in insertion order.
\<close>

definition find_optimal_configuration :: "trial list \<Rightarrow> (string \<times> report) list option" where
  "find_optimal_configuration results =
     (if results = [] then None
      else
        (let cpu_results = filter (\<lambda>r. t_device r = ''CPU'') results;
             gpu_results = filter (\<lambda>r. t_device r = ''GPU'') results
         in Some (concat (map (\<lambda>(dev, rs).
                                 if rs = [] then []
                                 else (case analyse_device rs of
                                         None \<Rightarrow> []
                                       | Some rep \<Rightarrow> [(dev, rep)]))
                            [(''CPU'', cpu_results), (''GPU'', gpu_results)]))))"

section \<open>Auxiliary notions\<close>

text \<open>
  A stream result is \<open>measured\<close> when, if it reports success, it has the keys
  \<open>actual_fps\<close>, with a rate that is not negative, and \<open>detections\<close>.
\<close>

definition measured :: "stream_result \<Rightarrow> bool" where
  "measured r =
     (if success r
      then (case actual_fps r of None \<Rightarrow> False | Some rate \<Rightarrow> 0 \<le> rate)
           \<and> detections r \<noteq> None
      else True)"

text \<open>\<open>self.results\<close> when \<open>benchmark_streams\<close> is left, by return or by exception.\<close>

definition final_results :: "(py_error \<times> trial list) + trial list \<Rightarrow> trial list" where
  "final_results out = (case out of Inl (e, results) \<Rightarrow> results | Inr results \<Rightarrow> results)"

text \<open>
  The words of the specification for the order of the sort: target rate first, number
  of streams second, both ascending.
\<close>

definition rate_then_streams :: "trial \<Rightarrow> trial \<Rightarrow> bool" where
  "rate_then_streams a b \<longleftrightarrow>
     t_target_fps a < t_target_fps b
     \<or> (t_target_fps a = t_target_fps b \<and> num_streams a \<le> num_streams b)"

text \<open>
  The words of the specification for the pair of \<open>s ! (i - 1)\<close> and \<open>s ! i\<close>: the
  two records share the target rate, and the later one has less than the earlier
  one's rate per stream times 0.8, the product being the program's product of doubles.
\<close>

definition drops_at :: "trial list \<Rightarrow> nat \<Rightarrow> bool" where
  "drops_at s i \<longleftrightarrow>
     t_target_fps (s ! i) = t_target_fps (s ! (i - 1))
     \<and> avg_fps_per_stream (s ! i) < float_mul (avg_fps_per_stream (s ! (i - 1))) float_0_8"

text \<open>
  The words of the specification for a sweep. A trial with \<open>n\<close> streams launches
  exactly \<open>n\<close> streams, stream \<open>i\<close> on the video file \<open>i mod len(video_files)\<close>;
  \<open>launched\<close> lists their results in the order of submission.
\<close>

definition launched ::
  "bench_env \<Rightarrow> string list \<Rightarrow> string \<Rightarrow> nat \<Rightarrow> rat \<Rightarrow> nat \<Rightarrow> stream_result list" where
  "launched env video_files dev j fps n =
     map (\<lambda>i. run_single_stream (stream_env_of env j n i) dev
                (video_files ! (i mod length video_files)) (''stream_'' @ str_nat i) 60 fps)
       [0..<n]"

text \<open>The early stop: fewer successful streams than half of the streams launched.\<close>

definition stops_early ::
  "bench_env \<Rightarrow> string list \<Rightarrow> string \<Rightarrow> nat \<Rightarrow> rat \<Rightarrow> nat \<Rightarrow> bool" where
  "stops_early env video_files dev j fps n \<longleftrightarrow>
     (of_nat (length (filter success (launched env video_files dev j fps n))) :: rat)
       < of_nat n * (1 / 2)"

text \<open>
  The numbers of streams tried for one rate: from one up to the first number that
  stops early, or up to \<open>max_streams\<close> when none does.
\<close>

definition levels_tried ::
  "bench_env \<Rightarrow> string list \<Rightarrow> string \<Rightarrow> nat \<Rightarrow> rat \<Rightarrow> nat \<Rightarrow> nat list" where
  "levels_tried env video_files dev j fps most =
     (case find (stops_early env video_files dev j fps) [1..<most + 1] of
        None \<Rightarrow> [1..<most + 1]
      | Some n \<Rightarrow> [1..<n + 1])"

text \<open>
  The same for any list of candidates, as a recursion: the candidates up to and
  including the first that satisfies \<open>P\<close>.
\<close>

fun upto_first :: "('a \<Rightarrow> bool) \<Rightarrow> 'a list \<Rightarrow> 'a list" where
  "upto_first P [] = []"
| "upto_first P (n # ns) = (if P n then [n] else n # upto_first P ns)"

text \<open>
  What one trial leaves in the log: nothing when no stream succeeded, and otherwise
  one record with the count, the mean rate, the mean times the count and the sum of
  the detections of the successful streams.
\<close>

definition trial_summary ::
  "string \<Rightarrow> nat \<Rightarrow> rat \<Rightarrow> string \<Rightarrow> stream_result list \<Rightarrow> trial list" where
  "trial_summary dev n fps ts rs =
     (let ok = filter success rs;
          mean = sum_list (map (\<lambda>r. the (actual_fps r)) ok) / of_nat (length ok)
      in if ok = [] then []
         else [\<lparr>t_device = dev, num_streams = n, t_target_fps = fps,
                 successful_streams = length ok,
                 avg_fps_per_stream = mean,
                 total_fps = mean * of_nat (length ok),
                 total_detections = sum_list (map (\<lambda>r. the (detections r)) ok),
                 timestamp = ts\<rparr>])"

text \<open>
  What a sweep appends to the log: for each rate in the given order, the summaries of
  the trials with the numbers of streams tried for that rate, in ascending order.
\<close>

definition rate_log ::
  "bench_env \<Rightarrow> string list \<Rightarrow> string \<Rightarrow> nat \<Rightarrow> nat \<Rightarrow> rat \<Rightarrow> trial list" where
  "rate_log env video_files dev most j fps =
     concat (map (\<lambda>n. trial_summary dev n fps (now_iso env j n)
                         (launched env video_files dev j fps n))
               (levels_tried env video_files dev j fps most))"

definition sweep_log ::
  "bench_env \<Rightarrow> string list \<Rightarrow> string \<Rightarrow> nat \<Rightarrow> rat list \<Rightarrow> trial list" where
  "sweep_log env video_files dev most fps_targets =
     concat (map (\<lambda>(j, fps). rate_log env video_files dev most j fps)
               (zip [0..<length fps_targets] fps_targets))"

section \<open>Example inputs\<close>

subsection \<open>Worlds of a stream\<close>

text \<open>
  A stream whose single iteration outlasts the 60 seconds; a stream whose process has
  exited at the first test of the loop; a stream whose \<open>Popen\<close> raises.
\<close>

definition w_slow :: stream_env where
  "w_slow = \<lparr>popen_error = None, start_time = 0, exited = (\<lambda>k. False), lag = (\<lambda>k. 60)\<rparr>"

definition w_exited :: stream_env where
  "w_exited = \<lparr>popen_error = None, start_time = 0, exited = (\<lambda>k. True), lag = (\<lambda>k. 0)\<rparr>"

definition w_broken :: stream_env where
  "w_broken = \<lparr>popen_error = Some ''gst-launch-1.0 not found'', start_time = 0,
               exited = (\<lambda>k. False), lag = (\<lambda>k. 0)\<rparr>"

subsection \<open>Sweeps\<close>

text \<open>
  A sweep in which \<open>Popen\<close> raises in every stream; a sweep in which every stream
  runs one slow iteration; a sweep in which the trial with ten streams of the first rate
  loses the streams from the fifth on, and every other stream finds its process exited
  at once.
\<close>

definition env_all_fail :: bench_env where
  "env_all_fail = \<lparr>stream_env_of = (\<lambda>j n i. w_broken), finish_key = (\<lambda>j n i. 0),
                    now_iso = (\<lambda>j n. ''2025-01-01T00:00:00'')\<rparr>"

definition env_slow :: bench_env where
  "env_slow = \<lparr>stream_env_of = (\<lambda>j n i. w_slow), finish_key = (\<lambda>j n i. n - i),
                now_iso = (\<lambda>j n. ''2025-01-01T00:00:00'')\<rparr>"

definition env_ten :: bench_env where
  "env_ten = \<lparr>stream_env_of =
                 (\<lambda>j n i. if j = 0 \<and> n = 10 \<and> 4 \<le> i then w_broken else w_exited),
               finish_key = (\<lambda>j n i. 0),
               now_iso = (\<lambda>j n. ''2025-01-01T00:00:00'')\<rparr>"

text \<open>
  Scenario A: four streams that all succeed, with the rates 10, 12, 9 and 11.
\<close>

definition scenario_a :: "stream_result list" where
  "scenario_a =
     map (\<lambda>(i, rate, frames, found).
            \<lparr>stream_id = ''stream_'' @ str_nat i, device = ''CPU'', target_fps = Some 15,
             actual_fps = Some rate, frames_processed = Some frames,
             detections = Some found, duration = Some (of_nat frames / rate),
             error = None, success = True\<rparr>)
       [(0, 10, 600, 60), (1, 12, 720, 72), (2, 9, 540, 54), (3, 11, 660, 66)]"

subsection \<open>Logs\<close>

text \<open>
  Scenario C: four CPU records at the rate 30, with 1, 2, 4 and 8 streams and the
  rates per stream 30, 29, 28 and 15, appended in the order 4, 1, 8, 2.
  Scenario D: a log with GPU records only.
\<close>

definition scenario_c :: "trial list" where
  "scenario_c =
     map (\<lambda>(n, avg). \<lparr>t_device = ''CPU'', num_streams = n, t_target_fps = 30,
                       successful_streams = n, avg_fps_per_stream = avg,
                       total_fps = avg * of_nat n, total_detections = 0,
                       timestamp = ''2025-01-01T00:00:00''\<rparr>)
       [(4, 28), (1, 30), (8, 15), (2, 29)]"

definition scenario_d :: "trial list" where
  "scenario_d =
     map (\<lambda>(n, avg). \<lparr>t_device = ''GPU'', num_streams = n, t_target_fps = 30,
                       successful_streams = n, avg_fps_per_stream = avg,
                       total_fps = avg * of_nat n, total_detections = 0,
                       timestamp = ''2025-01-01T00:00:00''\<rparr>)
       [(1, 25), (2, 24)]"

text \<open>
  A sweep over the rates 30 and then 15 with one stream, in which each stream runs one
  iteration that ends after 60 seconds, and the log it leaves: two records with the
  same total rate, the one with the greater target rate first.
\<close>

definition env_tie :: bench_env where
  "env_tie = \<lparr>stream_env_of =
                 (\<lambda>j n i. \<lparr>popen_error = None, start_time = 0, exited = (\<lambda>k. False),
                            lag = (\<lambda>k. if j = 0 then 1799 / 30 else 899 / 15)\<rparr>),
               finish_key = (\<lambda>j n i. 0),
               now_iso = (\<lambda>j n. ''2025-01-01T00:00:00'')\<rparr>"

definition tie_log :: "trial list" where
  "tie_log =
     [\<lparr>t_device = ''CPU'', num_streams = 1, t_target_fps = 30, successful_streams = 1,
       avg_fps_per_stream = 1 / 60, total_fps = 1 / 60, total_detections = 0,
       timestamp = ''2025-01-01T00:00:00''\<rparr>,
      \<lparr>t_device = ''CPU'', num_streams = 1, t_target_fps = 15, successful_streams = 1,
       avg_fps_per_stream = 1 / 60, total_fps = 1 / 60, total_detections = 0,
       timestamp = ''2025-01-01T00:00:00''\<rparr>]"

section \<open>Properties of \<open>run_single_stream\<close>\<close>

lemma run_single_stream_measured:
  "measured (run_single_stream w dev video_path sid dur fps)"
proof (cases "try_body w dur fps")
  case (Inl e)
  then show ?thesis by (simp add: run_single_stream_def measured_def)
next
  case (Inr x)
  obtain frame_count detection_count end_time where x: "x = (frame_count, detection_count, end_time)"
    by (cases x)
  show ?thesis using Inr x by (simp add: run_single_stream_def measured_def Let_def)
qed

text \<open>
  C9. On the success path of \<open>run_single_stream\<close> the returned \<open>actual_fps\<close> is
  \<open>frames_processed / duration\<close> when the measured duration is positive and \<open>0\<close>
  when it is not; the division is never made with a zero duration, and the rate is
  never negative.
\<close>

theorem achieved_rate_guarded:
  assumes "success (run_single_stream w dev video_path sid dur fps)"
  shows "\<exists>frames elapsed rate.
           frames_processed (run_single_stream w dev video_path sid dur fps) = Some frames
         \<and> duration (run_single_stream w dev video_path sid dur fps) = Some elapsed
         \<and> actual_fps (run_single_stream w dev video_path sid dur fps) = Some rate
         \<and> (0 < elapsed \<longrightarrow> rate = of_nat frames / elapsed)
         \<and> (elapsed \<le> 0 \<longrightarrow> rate = 0)
         \<and> 0 \<le> rate"
proof (cases "try_body w dur fps")
  case (Inl e)
  with assms show ?thesis by (simp add: run_single_stream_def)
next
  case (Inr x)
  obtain frame_count detection_count end_time where x: "x = (frame_count, detection_count, end_time)"
    by (cases x)
  show ?thesis using Inr x by (simp add: run_single_stream_def Let_def)
qed

theorem achieved_rate_guarded_witness:
  "success (run_single_stream w_slow ''CPU'' ''a.mp4'' ''stream_0'' 60 15)
   \<and> actual_fps (run_single_stream w_slow ''CPU'' ''a.mp4'' ''stream_0'' 60 15) = Some (15 / 901)
   \<and> success (run_single_stream w_exited ''CPU'' ''a.mp4'' ''stream_0'' 60 15)
   \<and> duration (run_single_stream w_exited ''CPU'' ''a.mp4'' ''stream_0'' 60 15) = Some 0
   \<and> actual_fps (run_single_stream w_exited ''CPU'' ''a.mp4'' ''stream_0'' 60 15) = Some 0"
proof -
  have slow: "run_single_stream w_slow ''CPU'' ''a.mp4'' ''stream_0'' 60 15 =
      \<lparr>stream_id = ''stream_0'', device = ''CPU'', target_fps = Some 15,
       actual_fps = Some (15 / 901), frames_processed = Some 1, detections = Some 0,
       duration = Some (901 / 15), error = None, success = True\<rparr>"
    by (simp add: run_single_stream_def try_body_def w_slow_def monitor.simps)
  have gone: "run_single_stream w_exited ''CPU'' ''a.mp4'' ''stream_0'' 60 15 =
      \<lparr>stream_id = ''stream_0'', device = ''CPU'', target_fps = Some 15,
       actual_fps = Some 0, frames_processed = Some 0, detections = Some 0,
       duration = Some 0, error = None, success = True\<rparr>"
    by (simp add: run_single_stream_def try_body_def w_exited_def monitor.simps)
  have s1: "success (run_single_stream w_slow ''CPU'' ''a.mp4'' ''stream_0'' 60 15)"
    by (simp add: slow)
  have s2: "success (run_single_stream w_exited ''CPU'' ''a.mp4'' ''stream_0'' 60 15)"
    by (simp add: gone)
  from achieved_rate_guarded [OF s1] achieved_rate_guarded [OF s2] show ?thesis
    by (simp add: slow gone)
qed

text \<open>
  C10. When the body of the \<open>try\<close> block raises an exception with message \<open>msg\<close>,
  \<open>run_single_stream\<close> returns the dict whose only keys are \<open>stream_id\<close>,
  \<open>device\<close>, \<open>error\<close> and \<open>success\<close>, with \<open>success = False\<close>; reading
  \<open>actual_fps\<close> or \<open>detections\<close> from it raises \<open>KeyError\<close>, and
  \<open>frames_processed\<close> and \<open>duration\<close> are absent too.
\<close>

theorem failed_stream_has_no_measurements:
  assumes "try_body w dur fps = Inl msg"
  shows "run_single_stream w dev video_path sid dur fps =
           \<lparr>stream_id = sid, device = dev, target_fps = None, actual_fps = None,
            frames_processed = None, detections = None, duration = None,
            error = Some msg, success = False\<rparr>
       \<and> keys (run_single_stream w dev video_path sid dur fps) =
           [''stream_id'', ''device'', ''error'', ''success'']
       \<and> get_actual_fps (run_single_stream w dev video_path sid dur fps) =
           Inl (KeyError ''actual_fps'')
       \<and> get_detections (run_single_stream w dev video_path sid dur fps) =
           Inl (KeyError ''detections'')"
  using assms
  by (simp add: run_single_stream_def keys_def get_actual_fps_def get_detections_def)

theorem failed_stream_has_no_measurements_witness:
  "try_body w_broken 60 15 = Inl ''gst-launch-1.0 not found''
   \<and> try_body w_slow 60 0 = Inl ''float division by zero''
   \<and> keys (run_single_stream w_broken ''CPU'' ''a.mp4'' ''stream_0'' 60 15) =
       [''stream_id'', ''device'', ''error'', ''success'']
   \<and> \<not> success (run_single_stream w_slow ''CPU'' ''a.mp4'' ''stream_0'' 60 0)"
proof -
  have b: "try_body w_broken 60 15 = Inl ''gst-launch-1.0 not found''"
    by (simp add: try_body_def w_broken_def)
  have z: "try_body w_slow 60 0 = Inl ''float division by zero''"
    by (simp add: try_body_def w_slow_def monitor.simps)
  have k: "keys (run_single_stream w_broken ''CPU'' ''a.mp4'' ''stream_0'' 60 15) =
       [''stream_id'', ''device'', ''error'', ''success'']"
    using failed_stream_has_no_measurements [OF b] by blast
  have "run_single_stream w_slow ''CPU'' ''a.mp4'' ''stream_0'' 60 0 =
           \<lparr>stream_id = ''stream_0'', device = ''CPU'', target_fps = None, actual_fps = None,
            frames_processed = None, detections = None, duration = None,
            error = Some ''float division by zero'', success = False\<rparr>"
    using failed_stream_has_no_measurements [OF z] by blast
  then have f: "\<not> success (run_single_stream w_slow ''CPU'' ''a.mp4'' ''stream_0'' 60 0)"
    by simp
  from b z k f show ?thesis by blast
qed

section \<open>Properties of \<open>benchmark_streams\<close>\<close>

subsection \<open>Submitting and collecting\<close>

lemma submit_files:
  "video_files \<noteq> [] \<Longrightarrow>
   submit video_files idxs =
     Inr (map (\<lambda>i. (i, video_files ! (i mod length video_files))) idxs)"
  by (induction idxs) simp_all

lemma collect_no_files:
  assumes "0 < n"
  shows "collect env [] dev j fps n = Inl ZeroDivisionError"
proof -
  from assms have "[0..<n] = 0 # [1..<n]" by (simp add: upt_conv_Cons)
  then show ?thesis by (simp add: collect_def)
qed

lemma collect_files:
  assumes "video_files \<noteq> []"
  shows "\<exists>rs. collect env video_files dev j fps n = Inr rs \<and> length rs = n
              \<and> (\<forall>r\<in>set rs. measured r)"
proof -
  let ?futures = "map (\<lambda>i. (i, video_files ! (i mod length video_files))) [0..<n]"
  let ?rs = "map (\<lambda>(i, video_file).
                    run_single_stream (stream_env_of env j n i) dev video_file
                      (''stream_'' @ str_nat i) 60 fps)
               (sort_key (\<lambda>(i, video_file). finish_key env j n i) ?futures)"
  have c: "collect env video_files dev j fps n = Inr ?rs"
    using assms by (simp add: collect_def submit_files)
  have l: "length ?rs = n" by simp
  have m: "\<forall>r\<in>set ?rs. measured r"
    by (auto simp: run_single_stream_measured)
  from c l m show ?thesis by blast
qed

lemma collect_nothing: "collect env video_files dev j fps 0 = Inr []"
  by (simp add: collect_def)

subsection \<open>Summing\<close>

lemma py_sum_values:
  fixes acc :: "'b::monoid_add"
  shows "map f rs = map Inr vs \<Longrightarrow> py_sum f rs acc = Inr (acc + sum_list vs)"
proof (induction rs arbitrary: vs acc)
  case Nil
  then show ?case by simp
next
  case (Cons r rs)
  then obtain v vs' where vs: "vs = v # vs'" "f r = Inr v" "map f rs = map Inr vs'"
    by (cases vs) auto
  with Cons.IH [of vs' "acc + v"] show ?case by (simp add: add.assoc)
qed

lemma sum_actual_fps:
  assumes "map actual_fps ok = map Some rates"
  shows "py_sum get_actual_fps ok 0 = Inr (sum_list rates)"
proof -
  have "map get_actual_fps ok = map Inr rates"
    using assms
  proof (induction ok arbitrary: rates)
    case Nil
    then show ?case by simp
  next
    case (Cons r ok)
    then show ?case by (cases rates) (auto simp: get_actual_fps_def)
  qed
  from py_sum_values [OF this, of 0] show ?thesis by simp
qed

lemma sum_detections:
  assumes "map detections ok = map Some found"
  shows "py_sum get_detections ok 0 = Inr (sum_list found)"
proof -
  have "map get_detections ok = map Inr found"
    using assms
  proof (induction ok arbitrary: found)
    case Nil
    then show ?case by simp
  next
    case (Cons r ok)
    then show ?case by (cases found) (auto simp: get_detections_def)
  qed
  from py_sum_values [OF this, of 0] show ?thesis by simp
qed

lemma measured_rates:
  assumes "\<forall>r\<in>set ok. success r \<and> measured r"
  shows "\<exists>rates found. map actual_fps ok = map Some rates
            \<and> map detections ok = map Some found \<and> (\<forall>x\<in>set rates. 0 \<le> x)"
  using assms
proof (induction ok)
  case Nil
  then show ?case by simp
next
  case (Cons r ok)
  then obtain rates found where ih: "map actual_fps ok = map Some rates"
      "map detections ok = map Some found" "\<forall>x\<in>set rates. 0 \<le> x"
    by auto
  from Cons.prems obtain rate d where r: "actual_fps r = Some rate" "0 \<le> rate"
      "detections r = Some d"
    by (auto simp: measured_def split: option.splits)
  have "map actual_fps (r # ok) = map Some (rate # rates)
        \<and> map detections (r # ok) = map Some (d # found)
        \<and> (\<forall>x\<in>set (rate # rates). 0 \<le> x)"
    using ih r by simp
  then show ?case by blast
qed

subsection \<open>One trial\<close>

lemma record_trial_values:
  assumes "filter success rs = ok" and "ok \<noteq> []"
    and "map actual_fps ok = map Some rates"
    and "map detections ok = map Some found"
  shows "record_trial dev n fps ts rs results =
           Inr (results @
                [\<lparr>t_device = dev, num_streams = n, t_target_fps = fps,
                  successful_streams = length ok,
                  avg_fps_per_stream = sum_list rates / of_nat (length ok),
                  total_fps = sum_list rates / of_nat (length ok) * of_nat (length ok),
                  total_detections = sum_list found,
                  timestamp = ts\<rparr>])"
  using assms
  by (simp add: record_trial_def Let_def sum_actual_fps sum_detections)

lemma record_trial_none:
  assumes "filter success rs = []"
  shows "record_trial dev n fps ts rs results = Inr results"
  using assms by (simp add: record_trial_def)

lemma record_trial_measured:
  assumes "\<forall>r\<in>set rs. measured r"
  shows "\<exists>new. record_trial dev n fps ts rs results = Inr (results @ new)
           \<and> (\<forall>t\<in>set new. successful_streams t \<le> length rs \<and> num_streams t = n
                            \<and> 0 \<le> total_fps t)"
proof (cases "filter success rs = []")
  case True
  then have "record_trial dev n fps ts rs results = Inr (results @ [])"
    by (simp add: record_trial_none)
  then show ?thesis by fastforce
next
  case False
  have "\<forall>r\<in>set (filter success rs). success r \<and> measured r" using assms by simp
  from measured_rates [OF this] obtain rates found where
    v: "map actual_fps (filter success rs) = map Some rates"
       "map detections (filter success rs) = map Some found" "\<forall>x\<in>set rates. 0 \<le> x"
    by blast
  let ?ok = "filter success rs"
  let ?t = "\<lparr>t_device = dev, num_streams = n, t_target_fps = fps,
             successful_streams = length ?ok,
             avg_fps_per_stream = sum_list rates / of_nat (length ?ok),
             total_fps = sum_list rates / of_nat (length ?ok) * of_nat (length ?ok),
             total_detections = sum_list found,
             timestamp = ts\<rparr>"
  have eq: "record_trial dev n fps ts rs results = Inr (results @ [?t])"
    by (rule record_trial_values [OF refl False v(1) v(2)])
  have "0 \<le> sum_list rates" using v(3) by (simp add: sum_list_nonneg)
  then have "0 \<le> total_fps ?t" by simp
  moreover have "successful_streams ?t \<le> length rs" by simp
  moreover have "num_streams ?t = n" by simp
  ultimately show ?thesis using eq by auto
qed

lemma collect_cases:
  "collect env video_files dev j fps n = Inl ZeroDivisionError
   \<or> (\<exists>rs. collect env video_files dev j fps n = Inr rs \<and> length rs = n
            \<and> (\<forall>r\<in>set rs. measured r))"
proof (cases "video_files = []")
  case False
  then show ?thesis using collect_files by blast
next
  case True
  show ?thesis
  proof (cases "n = 0")
    case True
    then show ?thesis by (simp add: collect_nothing)
  next
    case False
    with \<open>video_files = []\<close> show ?thesis by (simp add: collect_no_files)
  qed
qed

subsection \<open>The loops\<close>

lemma streams_loop_appends:
  "\<exists>new. final_results (streams_loop env video_files dev j fps ns results) = results @ new
         \<and> (\<forall>t\<in>set new. successful_streams t \<le> num_streams t \<and> 0 \<le> total_fps t)"
proof (induction ns arbitrary: results)
  case Nil
  then show ?case by (simp add: final_results_def)
next
  case (Cons n ns)
  from collect_cases [of env video_files dev j fps n] show ?case
  proof
    assume "collect env video_files dev j fps n = Inl ZeroDivisionError"
    then show ?thesis by (simp add: final_results_def)
  next
    assume "\<exists>rs. collect env video_files dev j fps n = Inr rs \<and> length rs = n
                 \<and> (\<forall>r\<in>set rs. measured r)"
    then obtain rs where rs: "collect env video_files dev j fps n = Inr rs"
        "length rs = n" "\<forall>r\<in>set rs. measured r"
      by blast
    from record_trial_measured [OF rs(3), of dev n fps "now_iso env j n" results]
    obtain new1 where n1:
        "record_trial dev n fps (now_iso env j n) rs results = Inr (results @ new1)"
        "\<forall>t\<in>set new1. successful_streams t \<le> length rs \<and> num_streams t = n \<and> 0 \<le> total_fps t"
      by blast
    have good1: "\<forall>t\<in>set new1. successful_streams t \<le> num_streams t \<and> 0 \<le> total_fps t"
      using n1(2) rs(2) by simp
    show ?thesis
    proof (cases "degraded rs n")
      case True
      then have "final_results (streams_loop env video_files dev j fps (n # ns) results)
                 = results @ new1"
        using rs(1) n1(1) by (simp add: final_results_def)
      with good1 show ?thesis by blast
    next
      case False
      from Cons.IH [of "results @ new1"] obtain new2 where n2:
          "final_results (streams_loop env video_files dev j fps ns (results @ new1))
           = (results @ new1) @ new2"
          "\<forall>t\<in>set new2. successful_streams t \<le> num_streams t \<and> 0 \<le> total_fps t"
        by blast
      have "final_results (streams_loop env video_files dev j fps (n # ns) results)
            = results @ (new1 @ new2)"
        using rs(1) n1(1) False n2(1) by simp
      moreover have "\<forall>t\<in>set (new1 @ new2). successful_streams t \<le> num_streams t
                        \<and> 0 \<le> total_fps t"
        using good1 n2(2) by auto
      ultimately show ?thesis by blast
    qed
  qed
qed

lemma fps_loop_appends:
  "\<exists>new. final_results (fps_loop env video_files dev most j fs results) = results @ new
         \<and> (\<forall>t\<in>set new. successful_streams t \<le> num_streams t \<and> 0 \<le> total_fps t)"
proof (induction fs arbitrary: j results)
  case Nil
  then show ?case by (simp add: final_results_def)
next
  case (Cons f fs)
  from streams_loop_appends [of env video_files dev j f "[1..<most + 1]" results]
  obtain new1 where n1:
      "final_results (streams_loop env video_files dev j f [1..<most + 1] results)
       = results @ new1"
      "\<forall>t\<in>set new1. successful_streams t \<le> num_streams t \<and> 0 \<le> total_fps t"
    by blast
  show ?case
  proof (cases "streams_loop env video_files dev j f [1..<most + 1] results")
    case (Inl x)
    then have "final_results (fps_loop env video_files dev most j (f # fs) results)
               = results @ new1"
      using n1(1) by simp
    with n1(2) show ?thesis by blast
  next
    case (Inr results')
    with n1(1) have r': "results' = results @ new1" by (simp add: final_results_def)
    from Cons.IH [of "j + 1" results'] obtain new2 where n2:
        "final_results (fps_loop env video_files dev most (j + 1) fs results')
         = results' @ new2"
        "\<forall>t\<in>set new2. successful_streams t \<le> num_streams t \<and> 0 \<le> total_fps t"
      by blast
    have "final_results (fps_loop env video_files dev most j (f # fs) results)
          = results @ (new1 @ new2)"
      using Inr r' n2(1) by simp
    moreover have "\<forall>t\<in>set (new1 @ new2). successful_streams t \<le> num_streams t
                      \<and> 0 \<le> total_fps t"
      using n1(2) n2(2) by auto
    ultimately show ?thesis by blast
  qed
qed

lemma fps_loop_no_streams:
  "fps_loop env video_files dev 0 j fs results = Inr results"
  by (induction fs arbitrary: j) simp_all

lemma fps_loop_no_files:
  assumes "0 < most"
  shows "fps_loop env [] dev most j (f # fs) results = Inl (ZeroDivisionError, results)"
proof -
  from assms have "[1..<most + 1] = 1 # [Suc 1..<most + 1]"
    by (simp add: upt_conv_Cons)
  then have "streams_loop env [] dev j f [1..<most + 1] results
             = Inl (ZeroDivisionError, results)"
    by (simp add: collect_no_files del: upt_Suc)
  then show ?thesis by simp
qed

lemma upt_split_at:
  assumes "lo \<le> i" and "i < hi"
  shows "[lo..<hi] = [lo..<i] @ i # [Suc i..<hi]"
proof -
  obtain k where k: "hi = i + k"
    using assms(2) by (metis le_Suc_ex less_or_eq_imp_le)
  have "[lo..<i + k] = [lo..<i] @ [i..<i + k]"
    using assms(1) by (rule upt_add_eq_append)
  moreover have "[i..<hi] = i # [Suc i..<hi]"
    using assms(2) by (rule upt_conv_Cons)
  ultimately show ?thesis unfolding k by simp
qed

subsection \<open>The log of a sweep\<close>

lemma upto_first_none: "\<forall>n\<in>set ns. \<not> P n \<Longrightarrow> upto_first P ns = ns"
  by (induction ns) auto

lemma upto_first_stop:
  "\<forall>k\<in>set before. \<not> P k \<Longrightarrow> P n \<Longrightarrow> upto_first P (before @ n # after) = before @ [n]"
  by (induction before) auto

lemma levels_tried_upto_first:
  "levels_tried env video_files dev j fps most
     = upto_first (stops_early env video_files dev j fps) [1..<most + 1]"
proof (cases "find (stops_early env video_files dev j fps) [1..<most + 1]")
  case None
  then have "\<forall>n\<in>set [1..<most + 1]. \<not> stops_early env video_files dev j fps n"
    unfolding find_None_iff by blast
  then have "upto_first (stops_early env video_files dev j fps) [1..<most + 1]
             = [1..<most + 1]"
    by (rule upto_first_none)
  with None show ?thesis by (simp add: levels_tried_def)
next
  case (Some n)
  then obtain i where i: "i < length [1..<most + 1]"
      "stops_early env video_files dev j fps ([1..<most + 1] ! i)"
      "n = [1..<most + 1] ! i"
      "\<forall>k<i. \<not> stops_early env video_files dev j fps ([1..<most + 1] ! k)"
    unfolding find_Some_iff by blast
  from i(1) have im: "i < most" by (simp del: upt_Suc)
  from i(3) im have n: "n = 1 + i" by (simp del: upt_Suc)
  have quiet: "\<forall>k\<in>set [1..<n]. \<not> stops_early env video_files dev j fps k"
  proof
    fix k assume "k \<in> set [1..<n]"
    then have k: "1 \<le> k" "k < n" by simp_all
    then have "k - 1 < i" using n by simp
    with i(4) have "\<not> stops_early env video_files dev j fps ([1..<most + 1] ! (k - 1))"
      by blast
    moreover have "[1..<most + 1] ! (k - 1) = k" using k n im by (simp del: upt_Suc)
    ultimately show "\<not> stops_early env video_files dev j fps k" by simp
  qed
  have stop: "stops_early env video_files dev j fps n" using i(2,3) by simp
  have "1 \<le> n" "n < most + 1" using n im by simp_all
  then have "[1..<most + 1] = [1..<n] @ n # [Suc n..<most + 1]" by (rule upt_split_at)
  then have "upto_first (stops_early env video_files dev j fps) [1..<most + 1]
             = [1..<n] @ [n]"
    using upto_first_stop [OF quiet stop] by simp
  also have "\<dots> = [1..<n + 1]" using n by simp
  finally show ?thesis using Some by (simp add: levels_tried_def)
qed

lemma sum_list_map_mset:
  fixes f :: "'a \<Rightarrow> 'b::comm_monoid_add"
  assumes "mset xs = mset ys"
  shows "sum_list (map f xs) = sum_list (map f ys)"
proof -
  have "sum_list (map f xs) = sum_mset (image_mset f (mset xs))"
    by (simp add: sum_mset_sum_list [symmetric])
  also have "\<dots> = sum_mset (image_mset f (mset ys))" using assms by simp
  also have "\<dots> = sum_list (map f ys)" by (simp add: sum_mset_sum_list [symmetric])
  finally show ?thesis .
qed

lemma trial_summary_mset:
  assumes "mset rs = mset rs'"
  shows "trial_summary dev n fps ts rs = trial_summary dev n fps ts rs'"
proof -
  have m: "mset (filter success rs) = mset (filter success rs')" using assms by simp
  then have l: "length (filter success rs) = length (filter success rs')"
    by (rule mset_eq_length)
  have e: "filter success rs = [] \<longleftrightarrow> filter success rs' = []"
    using l by (metis length_0_conv)
  have a: "sum_list (map (\<lambda>r. the (actual_fps r)) (filter success rs))
           = sum_list (map (\<lambda>r. the (actual_fps r)) (filter success rs'))"
    using m by (rule sum_list_map_mset)
  have d: "sum_list (map (\<lambda>r. the (detections r)) (filter success rs))
           = sum_list (map (\<lambda>r. the (detections r)) (filter success rs'))"
    using m by (rule sum_list_map_mset)
  show ?thesis unfolding trial_summary_def Let_def using l e a d by simp
qed

lemma record_trial_summary:
  assumes "\<forall>r\<in>set rs. measured r"
  shows "record_trial dev n fps ts rs results = Inr (results @ trial_summary dev n fps ts rs)"
proof (cases "filter success rs = []")
  case True
  then show ?thesis by (simp add: record_trial_none trial_summary_def)
next
  case False
  have "\<forall>r\<in>set (filter success rs). success r \<and> measured r" using assms by simp
  from measured_rates [OF this] obtain rates found where
    v: "map actual_fps (filter success rs) = map Some rates"
       "map detections (filter success rs) = map Some found"
    by blast
  have "map (\<lambda>r. the (actual_fps r)) (filter success rs)
        = map the (map actual_fps (filter success rs))"
    by simp
  also have "\<dots> = rates" unfolding v(1) by (simp add: comp_def)
  finally have a: "map (\<lambda>r. the (actual_fps r)) (filter success rs) = rates" .
  have "map (\<lambda>r. the (detections r)) (filter success rs)
        = map the (map detections (filter success rs))"
    by simp
  also have "\<dots> = found" unfolding v(2) by (simp add: comp_def)
  finally have d: "map (\<lambda>r. the (detections r)) (filter success rs) = found" .
  show ?thesis
    unfolding record_trial_values [OF refl False v] trial_summary_def Let_def a d
    using False by simp
qed

lemma collect_launched:
  assumes "video_files \<noteq> []"
  shows "\<exists>rs. collect env video_files dev j fps n = Inr rs
              \<and> mset rs = mset (launched env video_files dev j fps n)
              \<and> (\<forall>r\<in>set rs. measured r)"
proof -
  let ?futures = "map (\<lambda>i. (i, video_files ! (i mod length video_files))) [0..<n]"
  let ?run = "\<lambda>(i, video_file).
                run_single_stream (stream_env_of env j n i) dev video_file
                  (''stream_'' @ str_nat i) 60 fps"
  let ?rs = "map ?run (sort_key (\<lambda>(i, video_file). finish_key env j n i) ?futures)"
  have c: "collect env video_files dev j fps n = Inr ?rs"
    using assms by (simp add: collect_def submit_files)
  have "mset ?rs = mset (map ?run ?futures)" by (simp only: mset_map mset_sort)
  also have "map ?run ?futures = launched env video_files dev j fps n"
    by (simp add: launched_def comp_def)
  finally have p: "mset ?rs = mset (launched env video_files dev j fps n)" .
  have m: "\<forall>r\<in>set ?rs. measured r" by (auto simp: run_single_stream_measured)
  from c p m show ?thesis by blast
qed

lemma degraded_launched:
  assumes "mset rs = mset (launched env video_files dev j fps n)"
  shows "degraded rs n \<longleftrightarrow> stops_early env video_files dev j fps n"
proof -
  have "mset (filter success rs)
        = mset (filter success (launched env video_files dev j fps n))"
    using assms by simp
  then have "length (filter success rs)
             = length (filter success (launched env video_files dev j fps n))"
    by (rule mset_eq_length)
  then show ?thesis by (simp add: degraded_def stops_early_def)
qed

lemma streams_loop_log:
  assumes "video_files \<noteq> []"
  shows "streams_loop env video_files dev j fps ns results =
           Inr (results @
                concat (map (\<lambda>n. trial_summary dev n fps (now_iso env j n)
                                    (launched env video_files dev j fps n))
                          (upto_first (stops_early env video_files dev j fps) ns)))"
proof (induction ns arbitrary: results)
  case Nil
  then show ?case by simp
next
  case (Cons n ns)
  from collect_launched [OF assms, of env dev j fps n] obtain rs where
    rs: "collect env video_files dev j fps n = Inr rs"
        "mset rs = mset (launched env video_files dev j fps n)"
        "\<forall>r\<in>set rs. measured r"
    by blast
  let ?new = "trial_summary dev n fps (now_iso env j n) (launched env video_files dev j fps n)"
  have "record_trial dev n fps (now_iso env j n) rs results
        = Inr (results @ trial_summary dev n fps (now_iso env j n) rs)"
    using rs(3) by (rule record_trial_summary)
  then have rt: "record_trial dev n fps (now_iso env j n) rs results = Inr (results @ ?new)"
    using trial_summary_mset [OF rs(2)] by simp
  have dg: "degraded rs n \<longleftrightarrow> stops_early env video_files dev j fps n"
    using rs(2) by (rule degraded_launched)
  show ?case
  proof (cases "stops_early env video_files dev j fps n")
    case True
    then show ?thesis using rs(1) rt dg by simp
  next
    case False
    then show ?thesis using rs(1) rt dg Cons.IH [of "results @ ?new"] by simp
  qed
qed

lemma fps_loop_log:
  assumes "video_files \<noteq> []"
  shows "fps_loop env video_files dev most j fs results =
           Inr (results @
                concat (map (\<lambda>(j, fps). rate_log env video_files dev most j fps)
                          (zip [j..<j + length fs] fs)))"
proof (induction fs arbitrary: j results)
  case Nil
  then show ?case by simp
next
  case (Cons f fs)
  have z: "zip [j..<j + length (f # fs)] (f # fs)
           = (j, f) # zip [j + 1..<(j + 1) + length fs] fs"
    by (simp add: upt_conv_Cons del: upt_Suc)
  have "streams_loop env video_files dev j f [1..<most + 1] results
        = Inr (results @ rate_log env video_files dev most j f)"
    unfolding rate_log_def levels_tried_upto_first by (rule streams_loop_log [OF assms])
  then show ?case
    unfolding z using Cons.IH [of "j + 1" "results @ rate_log env video_files dev most j f"]
    by simp
qed

lemmas run_defs =
  benchmark_streams_def collect_def record_trial_def degraded_def run_single_stream_def
  try_body_def monitor.simps get_actual_fps_def get_detections_def str_nat.simps
  w_slow_def w_exited_def w_broken_def Let_def

section \<open>The claims about \<open>benchmark_streams\<close>\<close>

text \<open>
  C1, as the program has it. A trial in which every stream fails raises nothing and
  ends the inner loop for the current rate (the values of \<open>num_streams\<close> still to
  come are not run), and it appends no record: \<open>self.results\<close> is left as it was.
\<close>

theorem all_failed_trial_not_recorded:
  assumes "collect env video_files dev j fps n = Inr rs"
    and "\<forall>r\<in>set rs. \<not> success r"
    and "0 < n"
  shows "record_trial dev n fps (now_iso env j n) rs results = Inr results
       \<and> degraded rs n
       \<and> streams_loop env video_files dev j fps (n # ns) results = Inr results"
proof -
  have none: "filter success rs = []" using assms(2) by (simp add: filter_empty_conv)
  then have r: "record_trial dev n fps (now_iso env j n) rs results = Inr results"
    by (rule record_trial_none)
  have d: "degraded rs n" using none assms(3) by (simp add: degraded_def)
  from assms(1) r d show ?thesis by simp
qed

theorem all_failed_trial_not_recorded_witness:
  "collect env_all_fail [''a.mp4''] ''CPU'' 0 15 1 =
     Inr [\<lparr>stream_id = ''stream_0'', device = ''CPU'', target_fps = None, actual_fps = None,
           frames_processed = None, detections = None, duration = None,
           error = Some ''gst-launch-1.0 not found'', success = False\<rparr>]
   \<and> streams_loop env_all_fail [''a.mp4''] ''CPU'' 0 15 [1, 2, 3] [] = Inr []"
proof -
  let ?r = "\<lparr>stream_id = ''stream_0'', device = ''CPU'', target_fps = None, actual_fps = None,
           frames_processed = None, detections = None, duration = None,
           error = Some ''gst-launch-1.0 not found'', success = False\<rparr>"
  have c: "collect env_all_fail [''a.mp4''] ''CPU'' 0 15 1 = Inr [?r]"
    by (simp add: run_defs env_all_fail_def)
  have f: "\<forall>r\<in>set [?r]. \<not> success r" by simp
  have p: "0 < (1::nat)" by simp
  have "streams_loop env_all_fail [''a.mp4''] ''CPU'' 0 15 (1 # [2, 3]) [] = Inr []"
    using all_failed_trial_not_recorded [OF c f p] by blast
  with c show ?thesis by blast
qed

theorem all_failed_trial_counterexample:
  "benchmark_streams env_all_fail [''a.mp4''] ''CPU'' 8 [15, 30] [] = Inr []"
  by (simp add: run_defs env_all_fail_def upt_conv_Cons)

text \<open>
  C4, as the program has it. \<open>benchmark_streams\<close> checks nothing before it starts
  and has no configuration error. With \<open>max_streams = 0\<close> no trial is run and the
  call returns with \<open>self.results\<close> unchanged; the inner loop starts at one stream,
  so a trial with no stream is never launched. With an empty \<open>video_files\<close>, at least
  one rate and \<open>max_streams\<close> at least one, the first trial raises
  \<open>ZeroDivisionError\<close> at the first submission, before any stream has run and before
  any record is appended.
\<close>

theorem no_configuration_check:
  "(video_files = [] \<and> 0 < most \<and> fps_targets \<noteq> [] \<longrightarrow>
      benchmark_streams env video_files dev most fps_targets results
        = Inl (ZeroDivisionError, results))
   \<and> benchmark_streams env video_files dev 0 fps_targets results = Inr results
   \<and> (0 < n \<longrightarrow> collect env [] dev j fps n = Inl ZeroDivisionError)"
proof -
  have a: "video_files = [] \<and> 0 < most \<and> fps_targets \<noteq> [] \<longrightarrow>
      benchmark_streams env video_files dev most fps_targets results
        = Inl (ZeroDivisionError, results)"
  proof
    assume h: "video_files = [] \<and> 0 < most \<and> fps_targets \<noteq> []"
    then obtain f fs where fs: "fps_targets = f # fs" by (cases fps_targets) auto
    from h have pos: "0 < most" and vf: "video_files = []" by simp_all
    show "benchmark_streams env video_files dev most fps_targets results
            = Inl (ZeroDivisionError, results)"
      unfolding benchmark_streams_def fs vf by (rule fps_loop_no_files [OF pos])
  qed
  have b: "benchmark_streams env video_files dev 0 fps_targets results = Inr results"
    by (simp add: benchmark_streams_def fps_loop_no_streams)
  have c: "0 < n \<longrightarrow> collect env [] dev j fps n = Inl ZeroDivisionError"
    by (simp add: collect_no_files)
  show ?thesis using a b c by (intro conjI)
qed

theorem no_configuration_check_witness:
  "benchmark_streams env_slow [] ''CPU'' 8 [15, 30] [] = Inl (ZeroDivisionError, [])
   \<and> benchmark_streams env_slow [''a.mp4''] ''CPU'' 0 [15, 30] [] = Inr []
   \<and> collect env_slow [] ''CPU'' 0 15 1 = Inl ZeroDivisionError"
proof -
  note t = no_configuration_check [of "[]" 8 "[15, 30]" env_slow "''CPU''" "[]" 1 0 15]
  note u = no_configuration_check [of "[''a.mp4'']" 8 "[15, 30]" env_slow "''CPU''" "[]" 1 0 15]
  have a: "benchmark_streams env_slow [] ''CPU'' 8 [15, 30] [] = Inl (ZeroDivisionError, [])"
    using t [THEN conjunct1] by simp
  have b: "benchmark_streams env_slow [''a.mp4''] ''CPU'' 0 [15, 30] [] = Inr []"
    using u [THEN conjunct2, THEN conjunct1] .
  have c: "collect env_slow [] ''CPU'' 0 15 1 = Inl ZeroDivisionError"
    using t [THEN conjunct2, THEN conjunct2] by simp
  show ?thesis using a b c by (intro conjI)
qed

theorem no_configuration_check_counterexample:
  "benchmark_streams env_slow [] ''CPU'' 8 [15, 30] [] = Inl (ZeroDivisionError, [])
   \<and> benchmark_streams env_slow [''a.mp4''] ''CPU'' 0 [15, 30] [] = Inr []"
  by (simp add: run_defs env_slow_def upt_conv_Cons)

text \<open>
  C5. With at least one video file, the log after a sweep is the log before it followed,
  for each rate in the given order, by the summaries of the trials with the numbers of
  streams tried for that rate. For every rate these numbers start again at one; they end
  with the first number \<open>n \<le> max_streams\<close> whose trial has fewer successful streams
  than half of \<open>n\<close>, and reach \<open>max_streams\<close> when there is no such trial. So an
  early stop ends the trials of the current rate only.
\<close>

theorem early_stop_current_rate_only:
  assumes "video_files \<noteq> []"
  shows "final_results (benchmark_streams env video_files dev most fps_targets results)
           = results @ sweep_log env video_files dev most fps_targets
       \<and> (\<forall>n. 1 \<le> n \<and> n \<le> most \<and> stops_early env video_files dev j fps n
               \<and> (\<forall>k. 1 \<le> k \<and> k < n \<longrightarrow> \<not> stops_early env video_files dev j fps k)
             \<longrightarrow> levels_tried env video_files dev j fps most = [1..<n + 1])
       \<and> ((\<forall>n. 1 \<le> n \<and> n \<le> most \<longrightarrow> \<not> stops_early env video_files dev j fps n)
             \<longrightarrow> levels_tried env video_files dev j fps most = [1..<most + 1])"
proof (intro conjI allI impI)
  have "benchmark_streams env video_files dev most fps_targets results
        = Inr (results @ sweep_log env video_files dev most fps_targets)"
    unfolding benchmark_streams_def sweep_log_def
    using fps_loop_log [OF assms, of env dev most 0 fps_targets results] by simp
  then show "final_results (benchmark_streams env video_files dev most fps_targets results)
           = results @ sweep_log env video_files dev most fps_targets"
    by (simp add: final_results_def)
next
  fix n
  assume h: "1 \<le> n \<and> n \<le> most \<and> stops_early env video_files dev j fps n
               \<and> (\<forall>k. 1 \<le> k \<and> k < n \<longrightarrow> \<not> stops_early env video_files dev j fps k)"
  then have "1 \<le> n" "n < most + 1" by simp_all
  then have split: "[1..<most + 1] = [1..<n] @ n # [Suc n..<most + 1]" by (rule upt_split_at)
  have quiet: "\<forall>k\<in>set [1..<n]. \<not> stops_early env video_files dev j fps k" using h by simp
  have stop: "stops_early env video_files dev j fps n" using h by simp
  have "levels_tried env video_files dev j fps most = [1..<n] @ [n]"
    unfolding levels_tried_upto_first split by (rule upto_first_stop [OF quiet stop])
  then show "levels_tried env video_files dev j fps most = [1..<n + 1]" using h by simp
next
  assume "\<forall>n. 1 \<le> n \<and> n \<le> most \<longrightarrow> \<not> stops_early env video_files dev j fps n"
  then have "\<forall>n\<in>set [1..<most + 1]. \<not> stops_early env video_files dev j fps n"
    by (auto simp del: upt_Suc)
  then show "levels_tried env video_files dev j fps most = [1..<most + 1]"
    unfolding levels_tried_upto_first by (rule upto_first_none)
qed

theorem early_stop_current_rate_only_witness:
  "length (filter success (launched env_ten [''a.mp4''] ''CPU'' 0 15 10)) = 4
   \<and> stops_early env_ten [''a.mp4''] ''CPU'' 0 15 10
   \<and> levels_tried env_ten [''a.mp4''] ''CPU'' 0 15 12 = [1, 2, 3, 4, 5, 6, 7, 8, 9, 10]
   \<and> levels_tried env_ten [''a.mp4''] ''CPU'' 1 30 12
       = [1, 2, 3, 4, 5, 6, 7, 8, 9, 10, 11, 12]
   \<and> map (\<lambda>t. (t_target_fps t, num_streams t, successful_streams t))
        (final_results (benchmark_streams env_ten [''a.mp4''] ''CPU'' 12 [15, 30] []))
       = [(15, 1, 1), (15, 2, 2), (15, 3, 3), (15, 4, 4), (15, 5, 5), (15, 6, 6),
          (15, 7, 7), (15, 8, 8), (15, 9, 9), (15, 10, 4),
          (30, 1, 1), (30, 2, 2), (30, 3, 3), (30, 4, 4), (30, 5, 5), (30, 6, 6),
          (30, 7, 7), (30, 8, 8), (30, 9, 9), (30, 10, 10), (30, 11, 11), (30, 12, 12)]"
proof -
  note ev = stops_early_def launched_def run_single_stream_def try_body_def monitor.simps
    w_exited_def w_broken_def env_ten_def upt_conv_Cons
  have ne: "[''a.mp4''] \<noteq> []" by simp
  have four: "length (filter success (launched env_ten [''a.mp4''] ''CPU'' 0 15 10)) = 4"
    by (simp add: ev)
  have stop: "stops_early env_ten [''a.mp4''] ''CPU'' 0 15 10"
    by (simp add: ev)
  have "\<forall>k\<in>set [1..<10]. \<not> stops_early env_ten [''a.mp4''] ''CPU'' 0 15 k"
    by (simp add: ev)
  then have quiet: "\<forall>k. 1 \<le> k \<and> k < 10
                       \<longrightarrow> \<not> stops_early env_ten [''a.mp4''] ''CPU'' 0 15 k"
    by simp
  have "\<forall>n\<in>set [1..<13]. \<not> stops_early env_ten [''a.mp4''] ''CPU'' 1 30 n"
    by (simp add: ev)
  then have never: "\<forall>n. 1 \<le> n \<and> n \<le> 12
                       \<longrightarrow> \<not> stops_early env_ten [''a.mp4''] ''CPU'' 1 30 n"
    by simp
  note first = early_stop_current_rate_only
                 [OF ne, of env_ten "''CPU''" 12 "[15, 30]" "[]" 0 15]
  note second = early_stop_current_rate_only
                 [OF ne, of env_ten "''CPU''" 12 "[15, 30]" "[]" 1 30]
  have "(1::nat) \<le> 10 \<and> (10::nat) \<le> 12 \<and> stops_early env_ten [''a.mp4''] ''CPU'' 0 15 10
        \<and> (\<forall>k. 1 \<le> k \<and> k < 10 \<longrightarrow> \<not> stops_early env_ten [''a.mp4''] ''CPU'' 0 15 k)"
    using stop quiet by simp
  with first have "levels_tried env_ten [''a.mp4''] ''CPU'' 0 15 12 = [1..<10 + 1]"
    by blast
  then have l0: "levels_tried env_ten [''a.mp4''] ''CPU'' 0 15 12
                 = [1, 2, 3, 4, 5, 6, 7, 8, 9, 10]"
    by (simp add: upt_conv_Cons)
  from second never
  have "levels_tried env_ten [''a.mp4''] ''CPU'' 1 30 12 = [1..<12 + 1]" by blast
  then have l1: "levels_tried env_ten [''a.mp4''] ''CPU'' 1 30 12
                 = [1, 2, 3, 4, 5, 6, 7, 8, 9, 10, 11, 12]"
    by (simp add: upt_conv_Cons)
  from first
  have "final_results (benchmark_streams env_ten [''a.mp4''] ''CPU'' 12 [15, 30] [])
        = [] @ sweep_log env_ten [''a.mp4''] ''CPU'' 12 [15, 30]"
    by blast
  then have log: "final_results (benchmark_streams env_ten [''a.mp4''] ''CPU'' 12 [15, 30] [])
        = rate_log env_ten [''a.mp4''] ''CPU'' 12 0 15
          @ rate_log env_ten [''a.mp4''] ''CPU'' 12 1 30"
    by (simp add: sweep_log_def upt_conv_Cons)
  have r0: "map (\<lambda>t. (t_target_fps t, num_streams t, successful_streams t))
              (rate_log env_ten [''a.mp4''] ''CPU'' 12 0 15)
            = [(15, 1, 1), (15, 2, 2), (15, 3, 3), (15, 4, 4), (15, 5, 5), (15, 6, 6),
               (15, 7, 7), (15, 8, 8), (15, 9, 9), (15, 10, 4)]"
    unfolding rate_log_def l0
    by (simp add: trial_summary_def Let_def launched_def run_single_stream_def try_body_def
          monitor.simps w_exited_def w_broken_def env_ten_def upt_conv_Cons)
  have r1: "map (\<lambda>t. (t_target_fps t, num_streams t, successful_streams t))
              (rate_log env_ten [''a.mp4''] ''CPU'' 12 1 30)
            = [(30, 1, 1), (30, 2, 2), (30, 3, 3), (30, 4, 4), (30, 5, 5), (30, 6, 6),
               (30, 7, 7), (30, 8, 8), (30, 9, 9), (30, 10, 10), (30, 11, 11), (30, 12, 12)]"
    unfolding rate_log_def l1
    by (simp add: trial_summary_def Let_def launched_def run_single_stream_def try_body_def
          monitor.simps w_exited_def w_broken_def env_ten_def upt_conv_Cons)
  have all: "map (\<lambda>t. (t_target_fps t, num_streams t, successful_streams t))
        (final_results (benchmark_streams env_ten [''a.mp4''] ''CPU'' 12 [15, 30] []))
       = [(15, 1, 1), (15, 2, 2), (15, 3, 3), (15, 4, 4), (15, 5, 5), (15, 6, 6),
          (15, 7, 7), (15, 8, 8), (15, 9, 9), (15, 10, 4),
          (30, 1, 1), (30, 2, 2), (30, 3, 3), (30, 4, 4), (30, 5, 5), (30, 6, 6),
          (30, 7, 7), (30, 8, 8), (30, 9, 9), (30, 10, 10), (30, 11, 11), (30, 12, 12)]"
    unfolding log map_append r0 r1 by simp
  from four stop l0 l1 all show ?thesis by (intro conjI)
qed

text \<open>
  C6. When the successful stream results \<open>ok\<close> of a trial are not empty, with the
  rates \<open>rates\<close> and the detection counts \<open>found\<close>, the trial appends one record
  whose \<open>avg_fps_per_stream\<close> is the mean of the rates, whose \<open>total_fps\<close> is that
  mean times the number of successful streams, and whose \<open>total_detections\<close> is the
  sum of the detection counts.
\<close>

theorem trial_aggregation:
  assumes "filter success stream_results = ok" and "ok \<noteq> []"
    and "map actual_fps ok = map Some rates"
    and "map detections ok = map Some found"
  shows "\<exists>t. record_trial dev n fps ts stream_results results = Inr (results @ [t])
           \<and> successful_streams t = length ok
           \<and> avg_fps_per_stream t = sum_list rates / of_nat (length rates)
           \<and> total_fps t = avg_fps_per_stream t * of_nat (length ok)
           \<and> total_detections t = sum_list found
           \<and> t_device t = dev \<and> num_streams t = n \<and> t_target_fps t = fps"
proof -
  have "length (map actual_fps ok) = length (map Some rates)" using assms(3) by simp
  then have len: "length rates = length ok" by simp
  from record_trial_values [OF assms, of dev n fps ts results] len
  show ?thesis by simp
qed

theorem trial_aggregation_witness:
  "filter success scenario_a = scenario_a \<and> scenario_a \<noteq> []
   \<and> map actual_fps scenario_a = map Some [10, 12, 9, 11]
   \<and> map detections scenario_a = map Some [60, 72, 54, 66]
   \<and> (\<exists>t. record_trial ''CPU'' 4 15 ''2025-01-01T00:00:00'' scenario_a [] = Inr [t]
          \<and> successful_streams t = 4
          \<and> avg_fps_per_stream t = 21 / 2
          \<and> total_fps t = 42
          \<and> total_detections t = 252)"
proof -
  have a: "filter success scenario_a = scenario_a" by (simp add: scenario_a_def)
  have b: "scenario_a \<noteq> []" by (simp add: scenario_a_def)
  have c: "map actual_fps scenario_a = map Some [10, 12, 9, 11]"
    by (simp add: scenario_a_def)
  have d: "map detections scenario_a = map Some [60, 72, 54, 66]"
    by (simp add: scenario_a_def)
  have l: "length scenario_a = 4" by (simp add: scenario_a_def)
  from trial_aggregation [OF a b c d, of "''CPU''" 4 15 "''2025-01-01T00:00:00''" "[]"]
  obtain t where t: "record_trial ''CPU'' 4 15 ''2025-01-01T00:00:00'' scenario_a [] = Inr ([] @ [t])"
      "successful_streams t = length scenario_a"
      "avg_fps_per_stream t = sum_list [10, 12, 9, 11] / of_nat (length [10, 12, 9, 11 :: rat])"
      "total_fps t = avg_fps_per_stream t * of_nat (length scenario_a)"
      "total_detections t = sum_list [60, 72, 54, 66]"
    by blast
  have "record_trial ''CPU'' 4 15 ''2025-01-01T00:00:00'' scenario_a [] = Inr [t]
        \<and> successful_streams t = 4 \<and> avg_fps_per_stream t = 21 / 2
        \<and> total_fps t = 42 \<and> total_detections t = 252"
    using t l by simp
  with a b c d show ?thesis by blast
qed

text \<open>
  C8. Every record that \<open>benchmark_streams\<close> appends to \<open>self.results\<close> has at most
  as many successful streams as streams launched, and a total rate that is not
  negative. This holds for the log left by a return and by an exception alike.
\<close>

theorem appended_records_invariant:
  "\<exists>new. final_results (benchmark_streams env video_files dev most fps_targets results)
            = results @ new
         \<and> (\<forall>t\<in>set new. successful_streams t \<le> num_streams t \<and> 0 \<le> total_fps t)"
  unfolding benchmark_streams_def by (rule fps_loop_appends)

theorem appended_records_invariant_witness:
  "\<exists>t1 t2. final_results (benchmark_streams env_slow [''a.mp4''] ''CPU'' 2 [15] []) = [t1, t2]
     \<and> num_streams t1 = 1 \<and> num_streams t2 = 2
     \<and> successful_streams t1 \<le> num_streams t1 \<and> 0 \<le> total_fps t1
     \<and> successful_streams t2 \<le> num_streams t2 \<and> 0 \<le> total_fps t2"
proof -
  let ?t1 = "\<lparr>t_device = ''CPU'', num_streams = 1, t_target_fps = 15,
              successful_streams = 1, avg_fps_per_stream = 15 / 901,
              total_fps = 15 / 901, total_detections = 0,
              timestamp = ''2025-01-01T00:00:00''\<rparr>"
  let ?t2 = "\<lparr>t_device = ''CPU'', num_streams = 2, t_target_fps = 15,
              successful_streams = 2, avg_fps_per_stream = 15 / 901,
              total_fps = 30 / 901, total_detections = 0,
              timestamp = ''2025-01-01T00:00:00''\<rparr>"
  have e: "benchmark_streams env_slow [''a.mp4''] ''CPU'' 2 [15] [] = Inr [?t1, ?t2]"
    by (simp add: run_defs env_slow_def upt_conv_Cons)
  from appended_records_invariant [of env_slow "[''a.mp4'']" "''CPU''" 2 "[15]" "[]"]
  obtain new where new:
      "final_results (benchmark_streams env_slow [''a.mp4''] ''CPU'' 2 [15] []) = [] @ new"
      "\<forall>t\<in>set new. successful_streams t \<le> num_streams t \<and> 0 \<le> total_fps t"
    by blast
  from new(1) e have n: "new = [?t1, ?t2]" by (simp add: final_results_def)
  have "final_results (benchmark_streams env_slow [''a.mp4''] ''CPU'' 2 [15] []) = [?t1, ?t2]"
    using new(1) n by simp
  moreover have "successful_streams ?t1 \<le> num_streams ?t1 \<and> 0 \<le> total_fps ?t1"
    using new(2) unfolding n by (meson list.set_intros(1))
  moreover have "successful_streams ?t2 \<le> num_streams ?t2 \<and> 0 \<le> total_fps ?t2"
    using new(2) unfolding n by (meson list.set_intros)
  moreover have "num_streams ?t1 = 1 \<and> num_streams ?t2 = 2" by simp
  ultimately show ?thesis by blast
qed

section \<open>Properties of \<open>find_optimal_configuration\<close>\<close>

subsection \<open>The product of doubles\<close>

lemma int_pow_bounds:
  fixes p :: int
  assumes "0 < p"
  shows "(2::rat) powi (bitlen p - 1) \<le> of_int p \<and> of_int p < (2::rat) powi (bitlen p)"
proof -
  from bitlen_bounds [OF assms]
  have b: "2 ^ nat (bitlen p - 1) \<le> p" "p < 2 ^ nat (bitlen p)" by simp_all
  have ge1: "1 \<le> bitlen p" using assms by (auto simp: bitlen_alt_def)
  have "(of_int (2 ^ nat (bitlen p - 1)) :: rat) \<le> of_int p"
    using b(1) by (simp only: of_int_le_iff)
  then have lo: "(2::rat) ^ nat (bitlen p - 1) \<le> of_int p" by simp
  have "(of_int p :: rat) < of_int (2 ^ nat (bitlen p))"
    using b(2) by (simp only: of_int_less_iff)
  then have hi: "(of_int p :: rat) < 2 ^ nat (bitlen p)" by simp
  show ?thesis using lo hi ge1 by (simp add: power_int_def)
qed

lemma floor_log2_bounds:
  assumes "0 < x"
  shows "2 powi (floor_log2 x) \<le> x \<and> x < 2 powi (floor_log2 x + 1)"
proof -
  obtain p q where pq: "quotient_of x = (p, q)" by (cases "quotient_of x")
  then have q: "0 < q" by (rule quotient_of_denom_pos)
  have x: "x = of_int p / of_int q" using pq by (rule quotient_of_div)
  have p: "0 < p" using assms q x by (simp add: zero_less_divide_iff)
  let ?k = "bitlen p - bitlen q"
  from int_pow_bounds [OF p] have pb: "(2::rat) powi (bitlen p - 1) \<le> of_int p"
      "of_int p < (2::rat) powi (bitlen p)" by simp_all
  from int_pow_bounds [OF q] have qb: "(2::rat) powi (bitlen q - 1) \<le> of_int q"
      "of_int q < (2::rat) powi (bitlen q)" by simp_all
  have qpos: "(0::rat) < of_int q" using q by simp
  have lo: "(2::rat) powi (?k - 1) \<le> x"
  proof -
    have "(2::rat) powi (?k - 1) * of_int q \<le> 2 powi (?k - 1) * 2 powi (bitlen q)"
      using qb(2) by (intro mult_left_mono) simp_all
    also have "\<dots> = 2 powi (bitlen p - 1)" by (simp add: power_int_add [symmetric])
    also have "\<dots> \<le> of_int p" by (rule pb(1))
    finally show ?thesis using qpos by (simp add: x pos_le_divide_eq)
  qed
  have hi: "x < (2::rat) powi (?k + 1)"
  proof -
    have "of_int p < (2::rat) powi (bitlen p)" by (rule pb(2))
    also have "\<dots> = 2 powi (?k + 1) * 2 powi (bitlen q - 1)"
      by (simp add: power_int_add [symmetric])
    also have "\<dots> \<le> 2 powi (?k + 1) * of_int q"
      using qb(1) by (intro mult_left_mono) simp_all
    finally show ?thesis using qpos by (simp add: x pos_divide_less_eq)
  qed
  show ?thesis
  proof (cases "(2::rat) powi ?k \<le> x")
    case True
    then show ?thesis using hi pq by (simp add: floor_log2_def)
  next
    case False
    then show ?thesis using lo pq by (simp add: floor_log2_def)
  qed
qed

lemma floor_log2_unique:
  assumes "0 < x" and "2 powi e \<le> x" and "x < 2 powi (e + 1)"
  shows "floor_log2 x = e"
proof -
  let ?r = "floor_log2 x"
  from floor_log2_bounds [OF assms(1)] have r: "2 powi ?r \<le> x" "x < 2 powi (?r + 1)"
    by simp_all
  have lt1: "(2::rat) powi ?r < 2 powi (e + 1)" using r(1) assms(3) by simp
  have a: "?r < e + 1"
  proof (rule ccontr)
    assume "\<not> ?r < e + 1"
    then have "(2::rat) powi (e + 1) \<le> 2 powi ?r" by (intro power_int_increasing) simp_all
    with lt1 show False by simp
  qed
  have lt2: "(2::rat) powi e < 2 powi (?r + 1)" using r(2) assms(2) by simp
  have b: "e < ?r + 1"
  proof (rule ccontr)
    assume "\<not> e < ?r + 1"
    then have "(2::rat) powi (?r + 1) \<le> 2 powi e" by (intro power_int_increasing) simp_all
    with lt2 show False by simp
  qed
  from a b show ?thesis by simp
qed

lemma floor_rat_numeral_div:
  "\<lfloor>numeral a / numeral b :: rat\<rfloor> = numeral a div numeral b"
  using floor_divide_of_int_eq [of "numeral a" "numeral b", where ?'a = rat] by simp

lemma round_double_at:
  assumes "0 < x" and "2 powi e \<le> x" and "x < 2 powi (e + 1)" and "- 1022 \<le> e"
  shows "round_double x = of_int (round_half_even (x / 2 powi (e - 52))) * 2 powi (e - 52)"
  using assms floor_log2_unique [OF assms(1,2,3)]
  by (simp add: round_double_def Let_def max_def)

lemma round_half_even_near: "\<bar>of_int (round_half_even m) - m\<bar> \<le> 1 / 2"
proof -
  have "of_int \<lfloor>m\<rfloor> \<le> m" "m < of_int \<lfloor>m\<rfloor> + 1" by linarith+
  then show ?thesis by (auto simp: round_half_even_def Let_def)
qed

lemma round_double_near:
  assumes "2 powi (- 1022) \<le> x"
  shows "\<bar>round_double x - x\<bar> \<le> x / 2 ^ 53"
proof -
  have "(0::rat) < 2 powi (- 1022)" by (simp add: power_int_def)
  with assms have pos: "0 < x" by linarith
  let ?e = "floor_log2 x"
  from floor_log2_bounds [OF pos] have b: "2 powi ?e \<le> x" "x < 2 powi (?e + 1)" by simp_all
  have e: "- 1022 \<le> ?e"
  proof (rule ccontr)
    assume "\<not> - 1022 \<le> ?e"
    then have "(2::rat) powi (?e + 1) \<le> 2 powi (- 1022)"
      by (intro power_int_increasing) simp_all
    with b(2) assms show False by linarith
  qed
  let ?ulp = "(2::rat) powi (?e - 52)"
  have up: "0 < ?ulp" by (simp add: zero_less_power_int)
  from round_double_at [OF pos b e]
  have rd: "round_double x = of_int (round_half_even (x / ?ulp)) * ?ulp" .
  have "\<bar>round_double x - x\<bar> = \<bar>of_int (round_half_even (x / ?ulp)) - x / ?ulp\<bar> * ?ulp"
  proof -
    have "round_double x - x = (of_int (round_half_even (x / ?ulp)) - x / ?ulp) * ?ulp"
      using up by (simp add: rd algebra_simps)
    then show ?thesis using up by (simp add: abs_mult)
  qed
  also have "\<dots> \<le> 1 / 2 * ?ulp"
    using round_half_even_near [of "x / ?ulp"] up by (intro mult_right_mono) simp_all
  also have "1 / 2 * ?ulp = 2 powi ?e / 2 ^ 53"
  proof -
    have "(2::rat) powi ((?e - 52) + 52) = 2 powi (?e - 52) * 2 powi 52"
      by (rule power_int_add) simp
    then have "(2::rat) powi ?e = 2 powi (?e - 52) * 2 ^ 52" by simp
    then show ?thesis by simp
  qed
  also have "\<dots> \<le> x / 2 ^ 53" using b(1) by (simp add: divide_right_mono)
  finally show ?thesis .
qed

lemma float_0_8_product_near:
  assumes "2 powi (- 1022) \<le> x * float_0_8"
  shows "x * (4 / 5) * (1 - 1 / 2 ^ 52) \<le> float_mul x float_0_8
       \<and> float_mul x float_0_8 \<le> x * (4 / 5) * (1 + 1 / 2 ^ 52)"
proof -
  let ?y = "x * float_0_8"
  have "(0::rat) < 2 powi (- 1022)" by (simp add: power_int_def)
  with assms have ypos: "0 < ?y" by linarith
  have fpos: "0 < float_0_8" by (simp add: float_0_8_def)
  have xpos: "0 < x" using ypos fpos by (simp add: zero_less_mult_iff)
  from round_double_near [OF assms]
  have near: "?y - ?y / 2 ^ 53 \<le> float_mul x float_0_8"
             "float_mul x float_0_8 \<le> ?y + ?y / 2 ^ 53"
    unfolding float_mul_def by linarith+
  have lo: "x * (4 / 5) * (1 - 1 / 2 ^ 52) \<le> ?y - ?y / 2 ^ 53"
  proof -
    have "(4 / 5) * (1 - 1 / 2 ^ 52) \<le> float_0_8 - float_0_8 / 2 ^ 53"
      by (simp add: float_0_8_def)
    then have "x * ((4 / 5) * (1 - 1 / 2 ^ 52)) \<le> x * (float_0_8 - float_0_8 / 2 ^ 53)"
      using xpos by (intro mult_left_mono) simp_all
    then show ?thesis by (simp add: algebra_simps)
  qed
  have hi: "?y + ?y / 2 ^ 53 \<le> x * (4 / 5) * (1 + 1 / 2 ^ 52)"
  proof -
    have "float_0_8 + float_0_8 / 2 ^ 53 \<le> (4 / 5) * (1 + 1 / 2 ^ 52)"
      by (simp add: float_0_8_def)
    then have "x * (float_0_8 + float_0_8 / 2 ^ 53) \<le> x * ((4 / 5) * (1 + 1 / 2 ^ 52))"
      using xpos by (intro mult_left_mono) simp_all
    then show ?thesis by (simp add: algebra_simps)
  qed
  from near lo hi show ?thesis by linarith
qed

text \<open>
  At the threshold the product of doubles decides: for the doubles nearest to 10.03
  and 8.024 the product \<open>10.03 * 0.8\<close> is the double 8.024 itself, so 8.024 is not
  below it, although the exact product with \<open>4/5\<close> is greater.
\<close>

lemma float_mul_at_threshold:
  "float_mul (5646388032815759 / 562949953421312) float_0_8
     = 4517110426252607 / 562949953421312
   \<and> (4517110426252607 / 562949953421312 :: rat)
     < 5646388032815759 / 562949953421312 * (4 / 5)"
proof -
  have "float_mul (5646388032815759 / 562949953421312) float_0_8
          = 4517110426252607 / 562949953421312"
    unfolding float_mul_def float_0_8_def
    by (subst round_double_at [where e = 3])
       (simp_all add: round_half_even_def Let_def floor_rat_numeral_div)
  then show ?thesis by simp
qed

subsection \<open>The scan and the maxima\<close>

lemma scan_no_drop:
  "\<forall>i\<in>set idxs. \<not> drops_at s i \<Longrightarrow> scan_bottleneck s idxs b = b"
  by (induction idxs) (auto simp: drops_at_def Let_def)

lemma scan_first_drop:
  "\<forall>k\<in>set before. \<not> drops_at s k \<Longrightarrow> drops_at s i \<Longrightarrow>
   scan_bottleneck s (before @ i # after) b = num_streams (s ! (i - 1))"
  by (induction before) (auto simp: drops_at_def Let_def)

lemma py_max_is_Max:
  fixes xs :: "'a::linorder list"
  assumes "xs \<noteq> []"
  shows "py_max_by (\<lambda>n. n) xs = Some (Max (set xs))"
proof -
  from assms obtain y ys where xs: "xs = y # ys" by (cases xs) auto
  have "(\<lambda>(z::'a) best. if best < z then z else best) = max"
    by (auto simp: fun_eq_iff max_def)
  then have "py_max_by (\<lambda>n. n) (y # ys) = Some (fold max ys y)" by simp
  also have "fold max ys y = Max (set (y # ys))" by (rule Max.set_eq_fold [symmetric])
  finally show ?thesis unfolding xs .
qed

lemma fold_first_max:
  fixes key :: "'a \<Rightarrow> 'k::linorder"
  assumes "i < length seen" and "b = seen ! i"
    and "\<forall>k<length seen. key (seen ! k) \<le> key b"
    and "\<forall>k<i. key (seen ! k) < key b"
  shows "\<exists>m<length (seen @ xs).
           fold (\<lambda>y best. if key best < key y then y else best) xs b = (seen @ xs) ! m
         \<and> (\<forall>k<length (seen @ xs). key ((seen @ xs) ! k) \<le> key ((seen @ xs) ! m))
         \<and> (\<forall>k<m. key ((seen @ xs) ! k) < key ((seen @ xs) ! m))"
  using assms
proof (induction xs arbitrary: seen b i)
  case Nil
  then show ?case by auto
next
  case (Cons y ys)
  let ?b' = "if key b < key y then y else b"
  let ?i' = "if key b < key y then length seen else i"
  have 1: "?i' < length (seen @ [y])" using Cons.prems(1) by simp
  have 2: "?b' = (seen @ [y]) ! ?i'" using Cons.prems(1,2) by (simp add: nth_append)
  have 3: "\<forall>k<length (seen @ [y]). key ((seen @ [y]) ! k) \<le> key ?b'"
  proof (intro allI impI)
    fix k assume "k < length (seen @ [y])"
    then consider "k < length seen" | "k = length seen" by fastforce
    then show "key ((seen @ [y]) ! k) \<le> key ?b'"
    proof cases
      case 1
      with Cons.prems(3) have "key (seen ! k) \<le> key b" by simp
      with 1 show ?thesis by (auto simp: nth_append)
    next
      case 2
      then show ?thesis by auto
    qed
  qed
  have 4: "\<forall>k<?i'. key ((seen @ [y]) ! k) < key ?b'"
  proof (intro allI impI)
    fix k assume k: "k < ?i'"
    show "key ((seen @ [y]) ! k) < key ?b'"
    proof (cases "key b < key y")
      case True
      with k have kl: "k < length seen" by simp
      with Cons.prems(3) have "key (seen ! k) \<le> key b" by simp
      with True kl show ?thesis by (simp add: nth_append)
    next
      case False
      with k have ki: "k < i" by simp
      with Cons.prems(4) have "key (seen ! k) < key b" by simp
      with False ki Cons.prems(1) show ?thesis by (simp add: nth_append)
    qed
  qed
  from Cons.IH [OF 1 2 3 4] show ?case by simp
qed

lemma py_max_by_first:
  fixes key :: "'a \<Rightarrow> 'k::linorder"
  assumes "xs \<noteq> []"
  shows "\<exists>best m. py_max_by key xs = Some best \<and> m < length xs \<and> best = xs ! m
           \<and> (\<forall>k<length xs. key (xs ! k) \<le> key (xs ! m))
           \<and> (\<forall>k<m. key (xs ! k) < key (xs ! m))"
proof -
  from assms obtain y ys where xs: "xs = y # ys" by (cases xs) auto
  have "\<exists>m<length ([y] @ ys).
           fold (\<lambda>z best. if key best < key z then z else best) ys y = ([y] @ ys) ! m
         \<and> (\<forall>k<length ([y] @ ys). key (([y] @ ys) ! k) \<le> key (([y] @ ys) ! m))
         \<and> (\<forall>k<m. key (([y] @ ys) ! k) < key (([y] @ ys) ! m))"
    by (rule fold_first_max [of 0]) simp_all
  then show ?thesis unfolding xs by auto
qed

lemma analyse_device_nonempty:
  assumes "rs \<noteq> []"
  shows "\<exists>best. py_max_by total_fps rs = Some best
           \<and> analyse_device rs =
               Some \<lparr>max_streams = Max (num_streams ` set rs), best_config = best,
                     bottleneck_at_streams =
                       scan_bottleneck (sorted_results rs) [1..<length rs]
                         (Max (num_streams ` set rs)),
                     total_results = length rs\<rparr>"
proof -
  from py_max_by_first [OF assms, of total_fps] obtain best where
    b: "py_max_by total_fps rs = Some best" by blast
  have "map num_streams rs \<noteq> []" using assms by simp
  from py_max_is_Max [OF this]
  have m: "py_max_by (\<lambda>n. n) (map num_streams rs) = Some (Max (num_streams ` set rs))"
    by simp
  have l: "length (sorted_results rs) = length rs" by (simp add: sorted_results_def)
  show ?thesis using b m l by (simp add: analyse_device_def)
qed

lemma find_optimal_lookup:
  assumes "results \<noteq> []"
  shows "\<exists>analysis. find_optimal_configuration results = Some analysis
           \<and> (\<forall>dev. map_of analysis dev =
                  (if (dev = ''CPU'' \<or> dev = ''GPU'')
                      \<and> filter (\<lambda>r. t_device r = dev) results \<noteq> []
                   then analyse_device (filter (\<lambda>r. t_device r = dev) results)
                   else None))"
proof -
  let ?cpu = "filter (\<lambda>r. t_device r = ''CPU'') results"
  let ?gpu = "filter (\<lambda>r. t_device r = ''GPU'') results"
  let ?entry = "\<lambda>(dev, rs). if rs = [] then []
                  else (case analyse_device rs of None \<Rightarrow> [] | Some rep \<Rightarrow> [(dev, rep)])"
  let ?analysis = "?entry (''CPU'', ?cpu) @ ?entry (''GPU'', ?gpu)"
  have f: "find_optimal_configuration results = Some ?analysis"
    using assms by (simp add: find_optimal_configuration_def Let_def)
  have c: "?cpu = [] \<or> (\<exists>rep. analyse_device ?cpu = Some rep)"
    using analyse_device_nonempty [of ?cpu] by blast
  have g: "?gpu = [] \<or> (\<exists>rep. analyse_device ?gpu = Some rep)"
    using analyse_device_nonempty [of ?gpu] by blast
  have "\<forall>dev. map_of ?analysis dev =
                  (if (dev = ''CPU'' \<or> dev = ''GPU'')
                      \<and> filter (\<lambda>r. t_device r = dev) results \<noteq> []
                   then analyse_device (filter (\<lambda>r. t_device r = dev) results)
                   else None)"
  proof
    fix dev
    from c g show "map_of ?analysis dev =
                  (if (dev = ''CPU'' \<or> dev = ''GPU'')
                      \<and> filter (\<lambda>r. t_device r = dev) results \<noteq> []
                   then analyse_device (filter (\<lambda>r. t_device r = dev) results)
                   else None)"
      by (elim disjE exE) auto
  qed
  with f show ?thesis by blast
qed

lemmas analysis_defs =
  find_optimal_configuration_def analyse_device_def sorted_results_def drops_at_def Let_def

section \<open>The claims about \<open>find_optimal_configuration\<close>\<close>

text \<open>
  C7. A device without a record in the log has no entry in the analysis: the result
  is \<open>None\<close> (exactly when the log is empty) or a dict without that key. A log with
  GPU records only gives a dict with the key \<open>GPU\<close> and without the key \<open>CPU\<close>.
\<close>

theorem absent_device_has_no_report:
  "((\<forall>r\<in>set results. t_device r \<noteq> dev) \<longrightarrow>
      find_optimal_configuration results = None
      \<or> (\<exists>analysis. find_optimal_configuration results = Some analysis
                     \<and> map_of analysis dev = None))
   \<and> (find_optimal_configuration results = None \<longleftrightarrow> results = [])
   \<and> (results \<noteq> [] \<and> (\<forall>r\<in>set results. t_device r = ''GPU'') \<longrightarrow>
        (\<exists>analysis rep. find_optimal_configuration results = Some analysis
                       \<and> map_of analysis ''CPU'' = None
                       \<and> map_of analysis ''GPU'' = Some rep))"
proof (intro conjI impI)
  assume none: "\<forall>r\<in>set results. t_device r \<noteq> dev"
  show "find_optimal_configuration results = None
        \<or> (\<exists>analysis. find_optimal_configuration results = Some analysis
                       \<and> map_of analysis dev = None)"
  proof (cases "results = []")
    case True
    then show ?thesis by (simp add: find_optimal_configuration_def)
  next
    case False
    from find_optimal_lookup [OF False] obtain analysis where
      a: "find_optimal_configuration results = Some analysis"
         "\<forall>d. map_of analysis d =
                  (if (d = ''CPU'' \<or> d = ''GPU'')
                      \<and> filter (\<lambda>r. t_device r = d) results \<noteq> []
                   then analyse_device (filter (\<lambda>r. t_device r = d) results)
                   else None)"
      by blast
    have "filter (\<lambda>r. t_device r = dev) results = []"
      using none by (simp add: filter_empty_conv)
    with a(2) have "map_of analysis dev = None" by simp
    with a(1) show ?thesis by blast
  qed
next
  show "find_optimal_configuration results = None \<longleftrightarrow> results = []"
    by (simp add: find_optimal_configuration_def Let_def)
next
  assume gpu: "results \<noteq> [] \<and> (\<forall>r\<in>set results. t_device r = ''GPU'')"
  then have ne: "results \<noteq> []" by simp
  from find_optimal_lookup [OF ne] obtain analysis where
    a: "find_optimal_configuration results = Some analysis"
       "\<forall>d. map_of analysis d =
                (if (d = ''CPU'' \<or> d = ''GPU'')
                    \<and> filter (\<lambda>r. t_device r = d) results \<noteq> []
                 then analyse_device (filter (\<lambda>r. t_device r = d) results)
                 else None)"
    by blast
  have all: "filter (\<lambda>r. t_device r = ''GPU'') results = results"
    using gpu by simp
  have "filter (\<lambda>r. t_device r = ''CPU'') results = []"
    using gpu by (simp add: filter_empty_conv)
  with a(2) have c: "map_of analysis ''CPU'' = None" by simp
  from analyse_device_nonempty [OF ne] obtain rep where "analyse_device results = Some rep"
    by blast
  with a(2) all ne have g: "map_of analysis ''GPU'' = Some rep" by simp
  from a(1) c g
  show "\<exists>analysis rep. find_optimal_configuration results = Some analysis
                       \<and> map_of analysis ''CPU'' = None
                       \<and> map_of analysis ''GPU'' = Some rep"
    by blast
qed

theorem absent_device_has_no_report_witness:
  "map t_device scenario_d = [''GPU'', ''GPU'']
   \<and> (\<exists>analysis rep. find_optimal_configuration scenario_d = Some analysis
                     \<and> map_of analysis ''CPU'' = None
                     \<and> map_of analysis ''GPU'' = Some rep)
   \<and> find_optimal_configuration [] = None"
proof -
  have m: "map t_device scenario_d = [''GPU'', ''GPU'']" by (simp add: scenario_d_def)
  have b: "scenario_d \<noteq> [] \<and> (\<forall>r\<in>set scenario_d. t_device r = ''GPU'')"
    by (simp add: scenario_d_def)
  from absent_device_has_no_report [of scenario_d "''CPU''"] b
  have c: "\<exists>analysis rep. find_optimal_configuration scenario_d = Some analysis
                     \<and> map_of analysis ''CPU'' = None
                     \<and> map_of analysis ''GPU'' = Some rep"
    by blast
  from absent_device_has_no_report [of "[]" "''CPU''"]
  have d: "find_optimal_configuration [] = None" by blast
  from m c d show ?thesis by (intro conjI)
qed

text \<open>
  C2. For a device \<open>CPU\<close> or \<open>GPU\<close> with a non-empty partition \<open>part\<close> of the log,
  let \<open>s\<close> be the list the analyzer scans. Then \<open>s\<close> is the partition sorted by
  target rate and then number of streams: it is a permutation of \<open>part\<close>, it is
  ascending in that order, and records with the same rate and number of streams keep
  the order they have in \<open>part\<close>. The report's \<open>max_streams\<close> is the greatest number
  of streams in the partition. If \<open>i\<close> is the first index whose pair \<open>s ! (i - 1)\<close>,
  \<open>s ! i\<close> shares the target rate and has \<open>curr < prev * 0.8\<close> for the rates per
  stream, \<open>bottleneck_at_streams\<close> is the number of streams of \<open>s ! (i - 1)\<close>; if
  there is no such pair, it is \<open>max_streams\<close>. The product \<open>prev * 0.8\<close> is the
  program's product of doubles; it differs from the exact product by at most one part
  in \<open>2 ^ 52\<close>, so a pair whose exact ratio is not that close to 0.8 is decided as
  in exact arithmetic.
\<close>

theorem degradation_onset:
  assumes "dev = ''CPU'' \<or> dev = ''GPU''"
    and "part = filter (\<lambda>r. t_device r = dev) results"
    and "part \<noteq> []"
    and "s = sorted_results part"
  shows "mset s = mset part
       \<and> sorted_wrt rate_then_streams s
       \<and> (\<forall>f n. filter (\<lambda>r. t_target_fps r = f \<and> num_streams r = n) s
                 = filter (\<lambda>r. t_target_fps r = f \<and> num_streams r = n) part)
       \<and> (\<exists>analysis rep.
           find_optimal_configuration results = Some analysis
         \<and> map_of analysis dev = Some rep
         \<and> max_streams rep = Max (num_streams ` set part)
         \<and> (\<forall>i. 0 < i \<and> i < length s \<and> drops_at s i
                  \<and> (\<forall>k. 0 < k \<and> k < i \<longrightarrow> \<not> drops_at s k)
                \<longrightarrow> bottleneck_at_streams rep = num_streams (s ! (i - 1)))
         \<and> ((\<forall>i. 0 < i \<and> i < length s \<longrightarrow> \<not> drops_at s i)
                \<longrightarrow> bottleneck_at_streams rep = max_streams rep))
       \<and> (\<forall>i. t_target_fps (s ! i) = t_target_fps (s ! (i - 1))
              \<and> 2 powi (- 1022) \<le> avg_fps_per_stream (s ! (i - 1)) * float_0_8
            \<longrightarrow> (avg_fps_per_stream (s ! i)
                   < avg_fps_per_stream (s ! (i - 1)) * (4 / 5) * (1 - 1 / 2 ^ 52)
                 \<longrightarrow> drops_at s i)
              \<and> (drops_at s i
                 \<longrightarrow> avg_fps_per_stream (s ! i)
                     < avg_fps_per_stream (s ! (i - 1)) * (4 / 5) * (1 + 1 / 2 ^ 52)))"
proof -
  have perm: "mset s = mset part" by (simp add: assms(4) sorted_results_def)
  have "sorted (map (\<lambda>x. (t_target_fps x, num_streams x)) s)"
    by (simp add: assms(4) sorted_results_def)
  then have "sorted_wrt (\<lambda>a b. (t_target_fps a, num_streams a)
                               \<le> (t_target_fps b, num_streams b)) s"
    by (simp add: sorted_map)
  moreover have "(\<lambda>a b. (t_target_fps a, num_streams a) \<le> (t_target_fps b, num_streams b))
                 = rate_then_streams"
    by (auto simp: fun_eq_iff rate_then_streams_def)
  ultimately have ord: "sorted_wrt rate_then_streams s" by simp
  have stable: "\<forall>f n. filter (\<lambda>r. t_target_fps r = f \<and> num_streams r = n) s
                 = filter (\<lambda>r. t_target_fps r = f \<and> num_streams r = n) part"
  proof (intro allI)
    fix f n
    have "filter (\<lambda>r. (t_target_fps r, num_streams r) = (f, n))
            (sort_key (\<lambda>x. (t_target_fps x, num_streams x)) part)
          = filter (\<lambda>r. (t_target_fps r, num_streams r) = (f, n)) part"
      by (rule sort_key_stable)
    then show "filter (\<lambda>r. t_target_fps r = f \<and> num_streams r = n) s
                 = filter (\<lambda>r. t_target_fps r = f \<and> num_streams r = n) part"
      by (simp add: assms(4) sorted_results_def)
  qed
  have ne: "results \<noteq> []" using assms(2,3) by auto
  from find_optimal_lookup [OF ne] obtain analysis where
    a: "find_optimal_configuration results = Some analysis"
       "\<forall>d. map_of analysis d =
                (if (d = ''CPU'' \<or> d = ''GPU'')
                    \<and> filter (\<lambda>r. t_device r = d) results \<noteq> []
                 then analyse_device (filter (\<lambda>r. t_device r = d) results)
                 else None)"
    by blast
  from a(2) assms(1,2,3) have m: "map_of analysis dev = analyse_device part" by simp
  let ?most = "Max (num_streams ` set part)"
  from analyse_device_nonempty [OF assms(3)] obtain best where
    r: "analyse_device part =
          Some \<lparr>max_streams = ?most, best_config = best,
                bottleneck_at_streams = scan_bottleneck s [1..<length part] ?most,
                total_results = length part\<rparr>"
    unfolding assms(4) by blast
  let ?rep = "\<lparr>max_streams = ?most, best_config = best,
               bottleneck_at_streams = scan_bottleneck s [1..<length part] ?most,
               total_results = length part\<rparr>"
  have len: "length s = length part" by (simp add: assms(4) sorted_results_def)
  have first: "bottleneck_at_streams ?rep = num_streams (s ! (i - 1))"
    if i: "0 < i \<and> i < length s \<and> drops_at s i
           \<and> (\<forall>k. 0 < k \<and> k < i \<longrightarrow> \<not> drops_at s k)" for i
  proof -
    from i len have lo: "1 \<le> i" and hi: "i < length part" by linarith+
    from lo hi have "[1..<length part] = [1..<i] @ i # [Suc i..<length part]"
      by (rule upt_split_at)
    moreover have "\<forall>k\<in>set [1..<i]. \<not> drops_at s k" using i by simp
    ultimately have "scan_bottleneck s [1..<length part] ?most = num_streams (s ! (i - 1))"
      using i by (simp add: scan_first_drop)
    then show ?thesis by simp
  qed
  have none: "bottleneck_at_streams ?rep = max_streams ?rep"
    if n: "\<forall>i. 0 < i \<and> i < length s \<longrightarrow> \<not> drops_at s i"
  proof -
    have "\<forall>i\<in>set [1..<length part]. \<not> drops_at s i" using n len by simp
    then have "scan_bottleneck s [1..<length part] ?most = ?most" by (rule scan_no_drop)
    then show ?thesis by simp
  qed
  have "map_of analysis dev = Some ?rep" using m r by simp
  moreover have "max_streams ?rep = ?most" by simp
  ultimately have rep: "\<exists>analysis rep.
           find_optimal_configuration results = Some analysis
         \<and> map_of analysis dev = Some rep
         \<and> max_streams rep = Max (num_streams ` set part)
         \<and> (\<forall>i. 0 < i \<and> i < length s \<and> drops_at s i
                  \<and> (\<forall>k. 0 < k \<and> k < i \<longrightarrow> \<not> drops_at s k)
                \<longrightarrow> bottleneck_at_streams rep = num_streams (s ! (i - 1)))
         \<and> ((\<forall>i. 0 < i \<and> i < length s \<longrightarrow> \<not> drops_at s i)
                \<longrightarrow> bottleneck_at_streams rep = max_streams rep)"
    using a(1) first none by blast
  have exact: "\<forall>i. t_target_fps (s ! i) = t_target_fps (s ! (i - 1))
              \<and> 2 powi (- 1022) \<le> avg_fps_per_stream (s ! (i - 1)) * float_0_8
            \<longrightarrow> (avg_fps_per_stream (s ! i)
                   < avg_fps_per_stream (s ! (i - 1)) * (4 / 5) * (1 - 1 / 2 ^ 52)
                 \<longrightarrow> drops_at s i)
              \<and> (drops_at s i
                 \<longrightarrow> avg_fps_per_stream (s ! i)
                     < avg_fps_per_stream (s ! (i - 1)) * (4 / 5) * (1 + 1 / 2 ^ 52))"
  proof (intro allI impI)
    fix i
    assume h: "t_target_fps (s ! i) = t_target_fps (s ! (i - 1))
              \<and> 2 powi (- 1022) \<le> avg_fps_per_stream (s ! (i - 1)) * float_0_8"
    from float_0_8_product_near [of "avg_fps_per_stream (s ! (i - 1))"] h
    have b: "avg_fps_per_stream (s ! (i - 1)) * (4 / 5) * (1 - 1 / 2 ^ 52)
               \<le> float_mul (avg_fps_per_stream (s ! (i - 1))) float_0_8"
            "float_mul (avg_fps_per_stream (s ! (i - 1))) float_0_8
               \<le> avg_fps_per_stream (s ! (i - 1)) * (4 / 5) * (1 + 1 / 2 ^ 52)"
      by simp_all
    show "(avg_fps_per_stream (s ! i)
                   < avg_fps_per_stream (s ! (i - 1)) * (4 / 5) * (1 - 1 / 2 ^ 52)
                 \<longrightarrow> drops_at s i)
              \<and> (drops_at s i
                 \<longrightarrow> avg_fps_per_stream (s ! i)
                     < avg_fps_per_stream (s ! (i - 1)) * (4 / 5) * (1 + 1 / 2 ^ 52))"
      unfolding drops_at_def using h b by linarith
  qed
  from perm ord stable rep exact show ?thesis by (intro conjI)
qed

theorem degradation_onset_witness:
  "scenario_c = filter (\<lambda>r. t_device r = ''CPU'') scenario_c
   \<and> scenario_c \<noteq> []
   \<and> map num_streams scenario_c = [4, 1, 8, 2]
   \<and> map num_streams (sorted_results scenario_c) = [1, 2, 4, 8]
   \<and> map avg_fps_per_stream (sorted_results scenario_c) = [30, 29, 28, 15]
   \<and> drops_at (sorted_results scenario_c) 3
   \<and> \<not> drops_at (sorted_results scenario_c) 1
   \<and> \<not> drops_at (sorted_results scenario_c) 2
   \<and> (\<exists>analysis rep. find_optimal_configuration scenario_c = Some analysis
          \<and> map_of analysis ''CPU'' = Some rep
          \<and> max_streams rep = 8 \<and> bottleneck_at_streams rep = 4)
   \<and> (\<exists>analysis rep. find_optimal_configuration tie_log = Some analysis
          \<and> map_of analysis ''CPU'' = Some rep
          \<and> max_streams rep = 1 \<and> bottleneck_at_streams rep = 1)"
proof -
  let ?s = "sorted_results scenario_c"
  let ?c = "\<lambda>n avg. \<lparr>t_device = ''CPU'', num_streams = n, t_target_fps = 30,
                       successful_streams = n, avg_fps_per_stream = avg,
                       total_fps = avg * of_nat n, total_detections = 0,
                       timestamp = ''2025-01-01T00:00:00''\<rparr>"
  have dev: "''CPU'' = ''CPU'' \<or> ''CPU'' = ''GPU''" by simp
  have p: "scenario_c = filter (\<lambda>r. t_device r = ''CPU'') scenario_c"
    by (simp add: scenario_c_def)
  have ne: "scenario_c \<noteq> []" by (simp add: scenario_c_def)
  have log: "map num_streams scenario_c = [4, 1, 8, 2]" by (simp add: scenario_c_def)
  have srt: "?s = [?c 1 30, ?c 2 29, ?c 4 28, ?c 8 15]"
    by (simp add: scenario_c_def sorted_results_def)
  have sn: "map num_streams ?s = [1, 2, 4, 8]" by (simp add: srt)
  have sa: "map avg_fps_per_stream ?s = [30, 29, 28, 15]" by (simp add: srt)
  have len: "length ?s = 4" by (simp add: srt)
  have "(2::rat) powi (- 1022) \<le> 2 powi 0" by (intro power_int_increasing) simp_all
  then have small: "(2::rat) powi (- 1022) \<le> 1" by simp
  have n28: "22 \<le> float_mul 28 float_0_8"
  proof -
    have "(2::rat) powi (- 1022) \<le> 28 * float_0_8" using small by (simp add: float_0_8_def)
    from float_0_8_product_near [OF this] show ?thesis by simp
  qed
  have n29: "float_mul 29 float_0_8 \<le> 24"
  proof -
    have "(2::rat) powi (- 1022) \<le> 29 * float_0_8" using small by (simp add: float_0_8_def)
    from float_0_8_product_near [OF this] show ?thesis by simp
  qed
  have n30: "float_mul 30 float_0_8 \<le> 25"
  proof -
    have "(2::rat) powi (- 1022) \<le> 30 * float_0_8" using small by (simp add: float_0_8_def)
    from float_0_8_product_near [OF this] show ?thesis by simp
  qed
  have d3: "drops_at ?s 3" using n28 by (simp add: srt drops_at_def)
  have d1: "\<not> drops_at ?s 1" using n30 by (simp add: srt drops_at_def)
  have d2: "\<not> drops_at ?s 2" using n29 by (simp add: srt drops_at_def)
  have before: "\<forall>k. 0 < k \<and> k < 3 \<longrightarrow> \<not> drops_at ?s k"
  proof (intro allI impI)
    fix k :: nat assume "0 < k \<and> k < 3"
    then have "k = 1 \<or> k = 2" by arith
    with d1 d2 show "\<not> drops_at ?s k" by auto
  qed
  have most: "Max (num_streams ` set scenario_c) = 8" by (simp add: scenario_c_def)
  have at2: "num_streams (?s ! (3 - 1)) = 4" by (simp add: srt)
  from degradation_onset [OF dev p ne refl] obtain analysis rep where
    a: "find_optimal_configuration scenario_c = Some analysis"
       "map_of analysis ''CPU'' = Some rep"
       "max_streams rep = Max (num_streams ` set scenario_c)"
       "\<forall>i. 0 < i \<and> i < length ?s \<and> drops_at ?s i
              \<and> (\<forall>k. 0 < k \<and> k < i \<longrightarrow> \<not> drops_at ?s k)
            \<longrightarrow> bottleneck_at_streams rep = num_streams (?s ! (i - 1))"
    by blast
  have "0 < (3::nat) \<and> 3 < length ?s \<and> drops_at ?s 3
        \<and> (\<forall>k. 0 < k \<and> k < 3 \<longrightarrow> \<not> drops_at ?s k)"
    using len d3 before by simp
  with a(4) have "bottleneck_at_streams rep = num_streams (?s ! (3 - 1))"
    by blast
  with at2 have b: "bottleneck_at_streams rep = 4" by simp
  have c: "\<exists>analysis rep. find_optimal_configuration scenario_c = Some analysis
          \<and> map_of analysis ''CPU'' = Some rep
          \<and> max_streams rep = 8 \<and> bottleneck_at_streams rep = 4"
    using a(1,2,3) most b by auto
  have tp: "tie_log = filter (\<lambda>r. t_device r = ''CPU'') tie_log"
    by (simp add: tie_log_def)
  have tne: "tie_log \<noteq> []" by (simp add: tie_log_def)
  have tmost: "Max (num_streams ` set tie_log) = 1" by (simp add: tie_log_def)
  have tlen: "length (sorted_results tie_log) = 2"
    by (simp add: tie_log_def sorted_results_def)
  have t1: "\<not> drops_at (sorted_results tie_log) 1"
    by (simp add: tie_log_def sorted_results_def drops_at_def)
  have tnone: "\<forall>i. 0 < i \<and> i < length (sorted_results tie_log)
                 \<longrightarrow> \<not> drops_at (sorted_results tie_log) i"
  proof (intro allI impI)
    fix i :: nat assume "0 < i \<and> i < length (sorted_results tie_log)"
    then have "i = 1" using tlen by arith
    with t1 show "\<not> drops_at (sorted_results tie_log) i" by simp
  qed
  from degradation_onset [OF dev tp tne refl] obtain analysis' rep' where
    t: "find_optimal_configuration tie_log = Some analysis'"
       "map_of analysis' ''CPU'' = Some rep'"
       "max_streams rep' = Max (num_streams ` set tie_log)"
       "(\<forall>i. 0 < i \<and> i < length (sorted_results tie_log)
              \<longrightarrow> \<not> drops_at (sorted_results tie_log) i)
            \<longrightarrow> bottleneck_at_streams rep' = max_streams rep'"
    by blast
  from t(4) tnone have "bottleneck_at_streams rep' = max_streams rep'" by blast
  with t(1,2,3) tmost
  have d: "\<exists>analysis rep. find_optimal_configuration tie_log = Some analysis
          \<and> map_of analysis ''CPU'' = Some rep
          \<and> max_streams rep = 1 \<and> bottleneck_at_streams rep = 1"
    by auto
  from p ne log sn sa d3 d1 d2 c d show ?thesis by (intro conjI)
qed

text \<open>
  C3, as the program has it. For a device \<open>CPU\<close> or \<open>GPU\<close> with a non-empty
  partition \<open>part\<close> of the log, \<open>best_config\<close> is a record of the partition with the
  greatest \<open>total_fps\<close>, and among the records with that greatest value it is the first
  in the order of the log (the order in which the records were appended).
\<close>

theorem best_config_first_in_log:
  assumes "dev = ''CPU'' \<or> dev = ''GPU''"
    and "part = filter (\<lambda>r. t_device r = dev) results"
    and "part \<noteq> []"
  shows "\<exists>analysis rep m.
           find_optimal_configuration results = Some analysis
         \<and> map_of analysis dev = Some rep
         \<and> m < length part \<and> best_config rep = part ! m
         \<and> (\<forall>k<length part. total_fps (part ! k) \<le> total_fps (part ! m))
         \<and> (\<forall>k<m. total_fps (part ! k) < total_fps (part ! m))"
proof -
  have ne: "results \<noteq> []" using assms(2,3) by auto
  from find_optimal_lookup [OF ne] obtain analysis where
    a: "find_optimal_configuration results = Some analysis"
       "\<forall>d. map_of analysis d =
                (if (d = ''CPU'' \<or> d = ''GPU'')
                    \<and> filter (\<lambda>r. t_device r = d) results \<noteq> []
                 then analyse_device (filter (\<lambda>r. t_device r = d) results)
                 else None)"
    by blast
  from a(2) assms have m: "map_of analysis dev = analyse_device part" by simp
  from analyse_device_nonempty [OF assms(3)] obtain best rep where
    r: "py_max_by total_fps part = Some best" "analyse_device part = Some rep"
       "best_config rep = best"
    by fastforce
  from py_max_by_first [OF assms(3), of total_fps] r(1) obtain i where
    i: "i < length part" "best = part ! i"
       "\<forall>k<length part. total_fps (part ! k) \<le> total_fps (part ! i)"
       "\<forall>k<i. total_fps (part ! k) < total_fps (part ! i)"
    by auto
  from a(1) m r(2,3) i show ?thesis by auto
qed

theorem best_config_first_in_log_witness:
  "tie_log = filter (\<lambda>r. t_device r = ''CPU'') tie_log \<and> tie_log \<noteq> []
   \<and> (\<exists>analysis rep. find_optimal_configuration tie_log = Some analysis
          \<and> map_of analysis ''CPU'' = Some rep
          \<and> best_config rep = tie_log ! 0)"
proof -
  have dev: "''CPU'' = ''CPU'' \<or> ''CPU'' = ''GPU''" by simp
  have tp: "tie_log = filter (\<lambda>r. t_device r = ''CPU'') tie_log"
    by (simp add: tie_log_def)
  have tne: "tie_log \<noteq> []" by (simp add: tie_log_def)
  have len: "length tie_log = 2" by (simp add: tie_log_def)
  have eq: "total_fps (tie_log ! 0) = total_fps (tie_log ! 1)" by (simp add: tie_log_def)
  from best_config_first_in_log [OF dev tp tne] obtain analysis rep m where
    a: "find_optimal_configuration tie_log = Some analysis"
       "map_of analysis ''CPU'' = Some rep"
       "m < length tie_log" "best_config rep = tie_log ! m"
       "\<forall>k<m. total_fps (tie_log ! k) < total_fps (tie_log ! m)"
    by blast
  have "m = 0"
  proof (rule ccontr)
    assume "m \<noteq> 0"
    with a(3) len have m1: "m = 1" by arith
    with a(5) have "total_fps (tie_log ! 0) < total_fps (tie_log ! 1)" by simp
    with eq show False by simp
  qed
  with a(1,2,4) tp tne show ?thesis by auto
qed

theorem best_config_tie_counterexample:
  "benchmark_streams env_tie [''a.mp4''] ''CPU'' 1 [30, 15] [] = Inr tie_log
   \<and> find_optimal_configuration tie_log =
       Some [(''CPU'', \<lparr>max_streams = 1, best_config = tie_log ! 0,
                       bottleneck_at_streams = 1, total_results = 2\<rparr>)]
   \<and> sorted_results tie_log = [tie_log ! 1, tie_log ! 0]
   \<and> total_fps (tie_log ! 1) = total_fps (tie_log ! 0)
   \<and> tie_log ! 1 \<noteq> tie_log ! 0"
proof (intro conjI)
  show "benchmark_streams env_tie [''a.mp4''] ''CPU'' 1 [30, 15] [] = Inr tie_log"
    by (simp add: run_defs env_tie_def tie_log_def upt_conv_Cons)
  show "find_optimal_configuration tie_log =
       Some [(''CPU'', \<lparr>max_streams = 1, best_config = tie_log ! 0,
                       bottleneck_at_streams = 1, total_results = 2\<rparr>)]"
    by (simp add: analysis_defs tie_log_def)
  show "sorted_results tie_log = [tie_log ! 1, tie_log ! 0]"
    by (simp add: sorted_results_def tie_log_def)
  show "total_fps (tie_log ! 1) = total_fps (tie_log ! 0)" by (simp add: tie_log_def)
  show "tie_log ! 1 \<noteq> tie_log ! 0" by (simp add: tie_log_def)
qed

end
